theory Spec2Isabelle
  imports Main
begin

section \<open>Python values and dictionaries\<close>

text \<open>
  The Python objects the program handles: \<^verbatim>\<open>None\<close>, booleans, integers, strings, lists
  and dictionaries with string keys. A \<^verbatim>\<open>str\<close> is a sequence of code points and is
  modelled by the bytes of their UTF-8 encoding: the program concatenates, joins and
  escapes strings and tests them for emptiness, and all of these commute with the
  encoding. A \<^verbatim>\<open>str\<close> may hold a lone surrogate (the command line yields U+DC80 to
  U+DCFF for a byte that is not UTF-8); it is written with the three bytes the same
  scheme gives it, \<open>0xED\<close> followed by a byte from \<open>0xA0\<close> to \<open>0xBF\<close> and one more.
\<close>

datatype pyval =
    PNone
  | PBool bool
  | PInt int
  | PStr string
  | PList "pyval list"
  | PDict "(string \<times> pyval) list"

text \<open>
  A \<^verbatim>\<open>dict\<close> keeps its keys in insertion order (\<^verbatim>\<open>rows[0].keys()\<close> depends on it), so a
  dictionary is an association list; a dict display lists each key once.
\<close>

type_synonym pydict = "(string \<times> pyval) list"

datatype py_error =
    KeyError string
  | TypeError
  | ValueError
  | UnicodeEncodeError
  | Unsupported

type_synonym 'a result = "py_error + 'a"

definition err_bind :: "'a result \<Rightarrow> ('a \<Rightarrow> 'b result) \<Rightarrow> 'b result" where
  "err_bind m f = (case m of Inl e \<Rightarrow> Inl e | Inr x \<Rightarrow> f x)"

definition keys :: "pydict \<Rightarrow> string list" where
  "keys d = map fst d"

text \<open>\<^verbatim>\<open>d.get(k, default)\<close> and \<^verbatim>\<open>d[k]\<close>\<close>

definition get :: "pydict \<Rightarrow> string \<Rightarrow> pyval \<Rightarrow> pyval" where
  "get d k dflt = (case map_of d k of None \<Rightarrow> dflt | Some v \<Rightarrow> v)"

definition getitem :: "pydict \<Rightarrow> string \<Rightarrow> pyval result" where
  "getitem d k = (case map_of d k of None \<Rightarrow> Inl (KeyError k) | Some v \<Rightarrow> Inr v)"

text \<open>Truth value of an object, as \<^verbatim>\<open>not\<close>, \<^verbatim>\<open>or\<close> and \<^verbatim>\<open>if\<close> test it.\<close>

fun truthy :: "pyval \<Rightarrow> bool" where
  "truthy PNone = False"
| "truthy (PBool b) = b"
| "truthy (PInt i) = (i \<noteq> 0)"
| "truthy (PStr s) = (s \<noteq> [])"
| "truthy (PList xs) = (xs \<noteq> [])"
| "truthy (PDict d) = (d \<noteq> [])"

text \<open>\<^verbatim>\<open>a or b\<close>\<close>

definition py_or :: "pyval \<Rightarrow> pyval \<Rightarrow> pyval" where
  "py_or a b = (if truthy a then a else b)"

text \<open>
  \<^verbatim>\<open>s.encode("utf-8")\<close>, the strict encoder a file opened with \<^verbatim>\<open>encoding="utf-8"\<close> applies
  to what is written: it raises \<^verbatim>\<open>UnicodeEncodeError\<close> for a string that holds a
  surrogate, and otherwise gives the bytes of the string. No other lead byte is
  followed by the bytes of a surrogate, and \<open>0xED\<close> is never a continuation byte.
\<close>

fun has_surrogate :: "string \<Rightarrow> bool" where
  "has_surrogate (a # b # cs) =
     ((a = CHR 0xED \<and> 0xA0 \<le> (of_char b :: nat) \<and> (of_char b :: nat) \<le> 0xBF)
      \<or> has_surrogate (b # cs))"
| "has_surrogate cs = False"

definition encode_utf8 :: "string \<Rightarrow> string result" where
  "encode_utf8 s = (if has_surrogate s then Inl UnicodeEncodeError else Inr s)"

section \<open>The external numbering-plan library\<close>

text \<open>
  The \<^verbatim>\<open>phonenumbers\<close> package is not part of the repository; the program uses it through
  the operations below, which are parameters of the model. \<open>'n\<close> is the type of parsed
  numbers. \<^verbatim>\<open>phonenumbers.parse(raw, None)\<close> either returns a parsed number (\<open>Inr\<close>) or
  raises \<^verbatim>\<open>NumberParseException\<close>, whose \<^verbatim>\<open>str(exc)\<close> is the message (\<open>Inl\<close>).

  The last two fields describe what the installed release offers to
  \<^verbatim>\<open>_phone_type_name\<close>: \<open>PhoneNumberType_name c\<close> is the result of
  \<^verbatim>\<open>PhoneNumberType(c).name\<close>, \<open>None\<close> when that expression raises;
  \<open>VALUES_TO_NAMES\<close> is the table \<^verbatim>\<open>PhoneNumberType._VALUES_TO_NAMES\<close>, \<open>None\<close> when
  reading the attribute raises.
\<close>

datatype PhoneNumberFormat = E164 | INTERNATIONAL | NATIONAL | RFC3966

record 'n phonelib =
  parse :: "string \<Rightarrow> string + 'n"
  is_valid_number :: "'n \<Rightarrow> bool"
  is_possible_number :: "'n \<Rightarrow> bool"
  format_number :: "'n \<Rightarrow> PhoneNumberFormat \<Rightarrow> string"
  country_code :: "'n \<Rightarrow> int"
  description_for_number :: "'n \<Rightarrow> string \<Rightarrow> string"
  name_for_number :: "'n \<Rightarrow> string \<Rightarrow> string"
  time_zones_for_number :: "'n \<Rightarrow> string list"
  number_type :: "'n \<Rightarrow> int"
  PhoneNumberType_name :: "int \<Rightarrow> string option"
  VALUES_TO_NAMES :: "(int \<Rightarrow> string option) option"

section \<open>Decimal text of an integer\<close>

text \<open>\<^verbatim>\<open>str(n)\<close> for an \<^verbatim>\<open>int\<close>.\<close>

definition digit_char :: "nat \<Rightarrow> char" where
  "digit_char d = char_of (48 + d)"

fun str_nat :: "nat \<Rightarrow> string" where
  "str_nat n = (if n < 10 then [digit_char n] else str_nat (n div 10) @ [digit_char (n mod 10)])"

declare str_nat.simps [simp del]

definition str_int :: "int \<Rightarrow> string" where
  "str_int i = (if i < 0 then CHR ''-'' # str_nat (nat (- i)) else str_nat (nat i))"

section \<open>Lookup\<close>

text \<open>
  \<^verbatim>\<open>_phone_type_name\<close>: the name of the enumeration member; when that raises, the entry
  of the table, \<^verbatim>\<open>"UNKNOWN"\<close> for a code the table lacks; when the table cannot be read
  either, \<^verbatim>\<open>str(num_type)\<close>.
\<close>

definition phone_type_name :: "'n phonelib \<Rightarrow> 'n \<Rightarrow> string" where
  "phone_type_name lib parsed =
     (let num_type = number_type lib parsed in
      case PhoneNumberType_name lib num_type of
        Some name \<Rightarrow> name
      | None \<Rightarrow>
          (case VALUES_TO_NAMES lib of
             Some tbl \<Rightarrow> (case tbl num_type of Some name \<Rightarrow> name | None \<Rightarrow> ''UNKNOWN'')
           | None \<Rightarrow> str_int num_type))"

definition basic_lookup :: "'n phonelib \<Rightarrow> string \<Rightarrow> pydict" where
  "basic_lookup lib raw_number =
     (case parse lib raw_number of
        Inl exc \<Rightarrow>
          [(''input'', PStr raw_number), (''valid'', PBool False), (''error'', PStr exc)]
      | Inr parsed \<Rightarrow>
          (let valid = is_valid_number lib parsed;
               possible = is_possible_number lib parsed
           in [(''input'', PStr raw_number),
               (''valid'', PBool (valid \<and> possible)),
               (''possible'', PBool possible),
               (''international_format'', PStr (format_number lib parsed INTERNATIONAL)),
               (''e164_format'', PStr (format_number lib parsed E164)),
               (''country_code'', PInt (country_code lib parsed)),
               (''region'', PStr (description_for_number lib parsed ''en'')),
               (''carrier'', PStr (name_for_number lib parsed ''en'')),
               (''timezones'', PList (map PStr (time_zones_for_number lib parsed))),
               (''type'', PStr (phone_type_name lib parsed))]))"

text \<open>\<^verbatim>\<open>results = [basic_lookup(num) for num in args.numbers]\<close>\<close>

fun lookup_all :: "'n phonelib \<Rightarrow> string list \<Rightarrow> pydict list" where
  "lookup_all lib [] = []"
| "lookup_all lib (num # nums) = basic_lookup lib num # lookup_all lib nums"

section \<open>Console output\<close>

text \<open>
  \<^verbatim>\<open>str(v)\<close>, as an f-string field formats a value. The text of a list or a dictionary
  is built from \<^verbatim>\<open>repr\<close> of its elements, which is outside this model: the program never
  formats one, and the model stops with \<open>Unsupported\<close> there.
\<close>

fun py_str :: "pyval \<Rightarrow> string result" where
  "py_str PNone = Inr ''None''"
| "py_str (PBool b) = Inr (if b then ''True'' else ''False'')"
| "py_str (PInt i) = Inr (str_int i)"
| "py_str (PStr s) = Inr s"
| "py_str (PList xs) = Inl Unsupported"
| "py_str (PDict d) = Inl Unsupported"

text \<open>\<^verbatim>\<open>sep.join(parts)\<close> on strings.\<close>

fun join :: "string \<Rightarrow> string list \<Rightarrow> string" where
  "join sep [] = []"
| "join sep [x] = x"
| "join sep (x # y # ys) = x @ sep @ join sep (y # ys)"

text \<open>The characters of a string, each with the continuation bytes of its encoding.\<close>

definition is_continuation :: "char \<Rightarrow> bool" where
  "is_continuation c = (128 \<le> (of_char c :: nat) \<and> (of_char c :: nat) < 192)"

function utf8_chars :: "string \<Rightarrow> string list" where
  "utf8_chars [] = []"
| "utf8_chars (c # cs) =
     (c # takeWhile is_continuation cs) # utf8_chars (dropWhile is_continuation cs)"
  by pat_completeness auto
termination
  by (relation "measure length") (auto simp: length_dropWhile_le less_Suc_eq_le)

fun as_str :: "pyval \<Rightarrow> string result" where
  "as_str (PStr s) = Inr s"
| "as_str v = Inl TypeError"

fun all_str :: "pyval list \<Rightarrow> string list result" where
  "all_str [] = Inr []"
| "all_str (v # vs) =
     err_bind (as_str v) (\<lambda>s. err_bind (all_str vs) (\<lambda>ss. Inr (s # ss)))"

text \<open>
  \<^verbatim>\<open>sep.join(v)\<close> on an object: a list must hold strings only, a string is joined
  character by character, a dictionary by its keys, anything else is not iterable.
\<close>

fun py_join :: "string \<Rightarrow> pyval \<Rightarrow> string result" where
  "py_join sep (PList xs) = err_bind (all_str xs) (\<lambda>ss. Inr (join sep ss))"
| "py_join sep (PStr s) = Inr (join sep (utf8_chars s))"
| "py_join sep (PDict d) = Inr (join sep (keys d))"
| "py_join sep v = Inl TypeError"

text \<open>The en dash U+2013 and the non-breaking hyphen U+2011 of the messages, in UTF-8.\<close>

definition en_dash :: string where
  "en_dash = [CHR 0xE2, CHR 0x80, CHR 0x93]"

definition nb_hyphen :: string where
  "nb_hyphen = [CHR 0xE2, CHR 0x80, CHR 0x91]"

text \<open>The argument of each \<^verbatim>\<open>print\<close> call of the loop, for a record \<open>res\<close>.\<close>

definition invalid_line :: "pydict \<Rightarrow> string result" where
  "invalid_line res =
     err_bind (getitem res ''input'') (\<lambda>i.
     err_bind (py_str i) (\<lambda>inp.
     err_bind (py_str (get res ''error'' (PStr []))) (\<lambda>err.
     Inr (''[!] '' @ inp @ '': Invalid '' @ en_dash @ '' '' @ err))))"

definition intl_line :: "pydict \<Rightarrow> string result" where
  "intl_line res =
     err_bind (getitem res ''international_format'') (\<lambda>v.
     err_bind (as_str v) (\<lambda>s. Inr (CHR 0x0A # s)))"

definition region_line :: "pydict \<Rightarrow> string result" where
  "region_line res =
     err_bind (getitem res ''region'') (\<lambda>r.
     err_bind (py_str r) (\<lambda>region.
     err_bind (getitem res ''country_code'') (\<lambda>c.
     err_bind (py_str c) (\<lambda>code.
     Inr (''  Region      : '' @ region @ '' ( +'' @ code @ '' )'')))))"

definition carrier_line :: "pydict \<Rightarrow> string result" where
  "carrier_line res =
     err_bind (getitem res ''carrier'') (\<lambda>c.
     err_bind (py_str (py_or c (PStr ''Unknown''))) (\<lambda>name.
     Inr (''  Carrier     : '' @ name)))"

definition type_line :: "pydict \<Rightarrow> string result" where
  "type_line res =
     err_bind (getitem res ''type'') (\<lambda>t.
     err_bind (py_str t) (\<lambda>name.
     Inr (''  Type        : '' @ name)))"

definition timezones_line :: "pydict \<Rightarrow> string result" where
  "timezones_line res =
     err_bind (getitem res ''timezones'') (\<lambda>t.
     err_bind (if truthy t then err_bind (getitem res ''timezones'') (py_join '', '')
               else Inr ''Unknown'') (\<lambda>zones.
     Inr (''  Time'' @ nb_hyphen @ ''zones  : '' @ zones)))"

text \<open>
  Standard output is the list of the texts printed, one element for each \<^verbatim>\<open>print\<close> call
  (which ends its text with a newline). A statement that raises leaves what was
  printed before it.
\<close>

fun prints :: "string result list \<Rightarrow> string list \<Rightarrow> string list \<times> py_error option" where
  "prints [] out = (out, None)"
| "prints (Inl e # ps) out = (out, Some e)"
| "prints (Inr s # ps) out = prints ps (out @ [s])"

definition console_record :: "pydict \<Rightarrow> string list \<Rightarrow> string list \<times> py_error option" where
  "console_record res out =
     (if \<not> truthy (get res ''valid'' PNone) then prints [invalid_line res] out
      else prints [intl_line res, region_line res, carrier_line res, type_line res,
                   timezones_line res] out)"

fun console_results :: "pydict list \<Rightarrow> string list \<Rightarrow> string list \<times> py_error option" where
  "console_results [] out = (out, None)"
| "console_results (res # rest) out =
     (case console_record res out of
        (out', Some e) \<Rightarrow> (out', Some e)
      | (out', None) \<Rightarrow> console_results rest out')"

section \<open>Files\<close>

text \<open>
  A file written through \<^verbatim>\<open>csv.DictWriter\<close> is kept as the rows that reached the file,
  each the list of the field values handed to the underlying \<^verbatim>\<open>csv.writer\<close>; a text
  file is kept as its bytes (with the line ends as written: a POSIX system translates
  none). The file system maps a path to the file stored there. Both files are opened
  with \<^verbatim>\<open>encoding="utf-8"\<close>, so a write raises \<^verbatim>\<open>UnicodeEncodeError\<close> when its text holds a
  surrogate, and nothing of that write reaches the file.
\<close>

datatype file_content = TextFile string | CsvFile "pyval list list"

type_synonym filesystem = "string \<Rightarrow> file_content option"

subsection \<open>CSV\<close>

text \<open>
  \<^verbatim>\<open>DictWriter._dict_to_list\<close> with the defaults \<^verbatim>\<open>restval=""\<close> and
  \<^verbatim>\<open>extrasaction="raise"\<close>: a key of the row that is no field name raises
  \<^verbatim>\<open>ValueError\<close>, a field name the row lacks is written as the empty string.
\<close>

definition dict_to_list :: "string list \<Rightarrow> pydict \<Rightarrow> pyval list result" where
  "dict_to_list fieldnames rowdict =
     (let wrong_fields = filter (\<lambda>k. k \<notin> set fieldnames) (keys rowdict)
      in if wrong_fields \<noteq> [] then Inl ValueError
         else Inr (map (\<lambda>key. get rowdict key (PStr [])) fieldnames))"

text \<open>
  The writer turns a row into one line of text and writes it to the file. The text of a
  string field is the string itself, between quotes where needed; that of a number, a
  boolean or \<^verbatim>\<open>None\<close> is ASCII; that of a list or a dictionary is built from \<^verbatim>\<open>repr\<close>,
  which escapes a surrogate. So the line can be encoded unless a string field holds a
  surrogate.
\<close>

fun encodable_cell :: "pyval \<Rightarrow> bool" where
  "encodable_cell (PStr s) = (\<not> has_surrogate s)"
| "encodable_cell v = True"

definition writerow :: "string list \<Rightarrow> pydict \<Rightarrow> pyval list list \<Rightarrow> pyval list list \<times> py_error option" where
  "writerow fieldnames rowdict fh =
     (case dict_to_list fieldnames rowdict of
        Inl e \<Rightarrow> (fh, Some e)
      | Inr cells \<Rightarrow>
          if list_all encodable_cell cells then (fh @ [cells], None)
          else (fh, Some UnicodeEncodeError))"

text \<open>\<^verbatim>\<open>writeheader\<close> writes the row \<^verbatim>\<open>dict(zip(fieldnames, fieldnames))\<close>.\<close>

definition writeheader :: "string list \<Rightarrow> pyval list list \<Rightarrow> pyval list list \<times> py_error option" where
  "writeheader fieldnames fh = writerow fieldnames (map (\<lambda>k. (k, PStr k)) fieldnames) fh"

fun writerows :: "string list \<Rightarrow> pydict list \<Rightarrow> pyval list list \<Rightarrow> pyval list list \<times> py_error option" where
  "writerows fieldnames [] fh = (fh, None)"
| "writerows fieldnames (row # rows) fh =
     (case writerow fieldnames row fh of
        (fh', Some e) \<Rightarrow> (fh', Some e)
      | (fh', None) \<Rightarrow> writerows fieldnames rows fh')"

text \<open>
  \<^verbatim>\<open>write_csv\<close>: nothing is opened for no rows; otherwise the file is opened for writing
  (created or truncated), and the \<^verbatim>\<open>with\<close> block closes it with what was written, also
  when a row raises.
\<close>

definition write_csv :: "string \<Rightarrow> pydict list \<Rightarrow> filesystem \<Rightarrow> filesystem \<times> py_error option" where
  "write_csv path rows fs =
     (case rows of
        [] \<Rightarrow> (fs, None)
      | first # _ \<Rightarrow>
          (let fieldnames = keys first in
           case writeheader fieldnames [] of
             (fh, Some e) \<Rightarrow> (fs(path \<mapsto> CsvFile fh), Some e)
           | (fh, None) \<Rightarrow>
               (case writerows fieldnames rows fh of
                  (fh', err) \<Rightarrow> (fs(path \<mapsto> CsvFile fh'), err))))"

subsection \<open>JSON\<close>

text \<open>
  \<^verbatim>\<open>json.dumps(obj, indent=n, ensure_ascii=False)\<close>. A string is quoted, with the
  backslash, the double quote and the control characters below U+0020 escaped and every
  other byte, so every non-ASCII character, copied.
\<close>

definition hex_digit :: "nat \<Rightarrow> char" where
  "hex_digit d = (if d < 10 then char_of (48 + d) else char_of (87 + d))"

definition escape_char :: "char \<Rightarrow> string" where
  "escape_char c =
     (if c = CHR 0x5C then [CHR 0x5C, CHR 0x5C]
      else if c = CHR 0x22 then [CHR 0x5C, CHR 0x22]
      else if c = CHR 0x08 then [CHR 0x5C, CHR ''b'']
      else if c = CHR 0x0C then [CHR 0x5C, CHR ''f'']
      else if c = CHR 0x0A then [CHR 0x5C, CHR ''n'']
      else if c = CHR 0x0D then [CHR 0x5C, CHR ''r'']
      else if c = CHR 0x09 then [CHR 0x5C, CHR ''t'']
      else if (of_char c :: nat) < 32 then
        [CHR 0x5C, CHR ''u'', CHR ''0'', CHR ''0'',
         hex_digit ((of_char c :: nat) div 16), hex_digit ((of_char c :: nat) mod 16)]
      else [c])"

definition encode_basestring :: "string \<Rightarrow> string" where
  "encode_basestring s = CHR 0x22 # concat (map escape_char s) @ [CHR 0x22]"

definition newline_indent :: "nat \<Rightarrow> nat \<Rightarrow> string" where
  "newline_indent indent level = CHR 0x0A # replicate (indent * level) CHR '' ''"

text \<open>
  With an indent the item separator is a comma, followed by the newline and the
  indentation of the level; the key separator is a colon and a space. \<open>level\<close> is the
  nesting depth of the value being written.
\<close>

fun iterencode :: "nat \<Rightarrow> nat \<Rightarrow> pyval \<Rightarrow> string"
and iterencode_list :: "nat \<Rightarrow> nat \<Rightarrow> pyval list \<Rightarrow> string"
and iterencode_dict :: "nat \<Rightarrow> nat \<Rightarrow> (string \<times> pyval) list \<Rightarrow> string" where
  "iterencode indent level PNone = ''null''"
| "iterencode indent level (PBool b) = (if b then ''true'' else ''false'')"
| "iterencode indent level (PInt i) = str_int i"
| "iterencode indent level (PStr s) = encode_basestring s"
| "iterencode indent level (PList xs) =
     (if xs = [] then ''[]''
      else ''['' @ newline_indent indent (Suc level) @ iterencode_list indent (Suc level) xs
           @ newline_indent indent level @ '']'')"
| "iterencode indent level (PDict d) =
     (if d = [] then ''{}''
      else ''{'' @ newline_indent indent (Suc level) @ iterencode_dict indent (Suc level) d
           @ newline_indent indent level @ ''}'')"
| "iterencode_list indent level [] = []"
| "iterencode_list indent level [x] = iterencode indent level x"
| "iterencode_list indent level (x # y # ys) =
     iterencode indent level x @ '','' @ newline_indent indent level
     @ iterencode_list indent level (y # ys)"
| "iterencode_dict indent level [] = []"
| "iterencode_dict indent level [(k, v)] =
     encode_basestring k @ '': '' @ iterencode indent level v"
| "iterencode_dict indent level ((k, v) # kv # kvs) =
     encode_basestring k @ '': '' @ iterencode indent level v @ '','' @ newline_indent indent level
     @ iterencode_dict indent level (kv # kvs)"

definition json_dumps :: "nat \<Rightarrow> pyval \<Rightarrow> string" where
  "json_dumps indent obj = iterencode indent 0 obj"

text \<open>
  \<^verbatim>\<open>write_json\<close>: \<^verbatim>\<open>Path.write_text\<close> opens the file for writing, which empties it, and
  writes the text in one piece; when the text cannot be encoded the file stays empty.
\<close>

definition write_json :: "string \<Rightarrow> pydict list \<Rightarrow> filesystem \<Rightarrow> filesystem \<times> py_error option" where
  "write_json path rows fs =
     (case encode_utf8 (json_dumps 2 (PList (map PDict rows))) of
        Inl e \<Rightarrow> (fs(path \<mapsto> TextFile []), Some e)
      | Inr bytes \<Rightarrow> (fs(path \<mapsto> TextFile bytes), None))"

subsection \<open>Reading JSON back\<close>

text \<open>
  The program never reads its output. To state the round trip, \<^verbatim>\<open>json.loads\<close> is modelled
  after Python's decoder (\<^verbatim>\<open>scanstring\<close>, \<^verbatim>\<open>JSONArray\<close>, \<^verbatim>\<open>JSONObject\<close>, \<^verbatim>\<open>scan_once\<close>)
  on the part of JSON the encoder above can produce. It is stricter than the decoder
  where the two differ: a number with a fraction or an exponent, \<^verbatim>\<open>NaN\<close>, the infinities
  and an escaped surrogate are refused (\<open>None\<close>) instead of decoded, so whatever it
  returns the decoder returns too. The first argument of \<open>scan_once\<close> bounds the number
  of nested calls; \<open>json_loads\<close> supplies more than the length of the text.
\<close>

text \<open>The whitespace the decoder skips, decimal digits and hexadecimal digits.\<close>

definition is_ws :: "char \<Rightarrow> bool" where
  "is_ws c = (c = CHR '' '' \<or> c = CHR 0x09 \<or> c = CHR 0x0A \<or> c = CHR 0x0D)"

definition skip_ws :: "string \<Rightarrow> string" where
  "skip_ws s = dropWhile is_ws s"

definition is_digit :: "char \<Rightarrow> bool" where
  "is_digit c = (48 \<le> (of_char c :: nat) \<and> (of_char c :: nat) \<le> 57)"

definition digits_value :: "string \<Rightarrow> nat" where
  "digits_value ds = foldl (\<lambda>a c. 10 * a + ((of_char c :: nat) - 48)) 0 ds"

definition hex_value :: "char \<Rightarrow> nat option" where
  "hex_value c =
     (let n = (of_char c :: nat) in
      if 48 \<le> n \<and> n \<le> 57 then Some (n - 48)
      else if 97 \<le> n \<and> n \<le> 102 then Some (n - 87)
      else if 65 \<le> n \<and> n \<le> 70 then Some (n - 55)
      else None)"

text \<open>
  The UTF-8 bytes of the character an escape \<^verbatim>\<open>\\uXXXX\<close> names, for a code point of the
  basic plane that is no surrogate.
\<close>

definition utf8_encode :: "nat \<Rightarrow> string option" where
  "utf8_encode cp =
     (if cp < 0x80 then Some [char_of cp]
      else if cp < 0x800 then Some [char_of (0xC0 + cp div 64), char_of (0x80 + cp mod 64)]
      else if 0xD800 \<le> cp \<and> cp < 0xE000 then None
      else Some [char_of (0xE0 + cp div 4096), char_of (0x80 + (cp div 64) mod 64),
                 char_of (0x80 + cp mod 64)])"

definition decode_uXXXX :: "char \<Rightarrow> char \<Rightarrow> char \<Rightarrow> char \<Rightarrow> string option" where
  "decode_uXXXX a b c d =
     (case (hex_value a, hex_value b, hex_value c, hex_value d) of
        (Some h3, Some h2, Some h1, Some h0) \<Rightarrow> utf8_encode (((h3 * 16 + h2) * 16 + h1) * 16 + h0)
      | _ \<Rightarrow> None)"

text \<open>The one-letter escapes.\<close>

definition unescape :: "char \<Rightarrow> char option" where
  "unescape e =
     (if e = CHR 0x22 then Some (CHR 0x22)
      else if e = CHR 0x5C then Some (CHR 0x5C)
      else if e = CHR ''/'' then Some (CHR ''/'')
      else if e = CHR ''b'' then Some (CHR 0x08)
      else if e = CHR ''f'' then Some (CHR 0x0C)
      else if e = CHR ''n'' then Some (CHR 0x0A)
      else if e = CHR ''r'' then Some (CHR 0x0D)
      else if e = CHR ''t'' then Some (CHR 0x09)
      else None)"

definition prepend :: "string \<Rightarrow> (string \<times> string) option \<Rightarrow> (string \<times> string) option" where
  "prepend pre r = (case r of None \<Rightarrow> None | Some (s, rest) \<Rightarrow> Some (pre @ s, rest))"

text \<open>
  \<^verbatim>\<open>scanstring\<close>, strict: the text after the opening quote, up to the closing quote; a raw
  control character ends the scan with an error.
\<close>

fun scanstring :: "string \<Rightarrow> (string \<times> string) option" where
  "scanstring [] = None"
| "scanstring (c # cs) =
     (if c = CHR 0x22 then Some ([], cs)
      else if c = CHR 0x5C then
        (case cs of
           [] \<Rightarrow> None
         | e # cs1 \<Rightarrow>
             if e = CHR ''u'' then
               (case cs1 of
                  h3 # h2 # h1 # h0 # cs2 \<Rightarrow>
                    (case decode_uXXXX h3 h2 h1 h0 of
                       None \<Rightarrow> None
                     | Some bytes \<Rightarrow> prepend bytes (scanstring cs2))
                | _ \<Rightarrow> None)
             else
               (case unescape e of
                  None \<Rightarrow> None
                | Some ch \<Rightarrow> prepend [ch] (scanstring cs1)))
      else if (of_char c :: nat) < 32 then None
      else prepend [c] (scanstring cs))"

text \<open>
  The integer the number pattern \<^verbatim>\<open>-?(0|[1-9][0-9]*)\<close> matches at the start of the text.
\<close>

definition scan_number :: "string \<Rightarrow> (pyval \<times> string) option" where
  "scan_number s =
     (let neg = (s \<noteq> [] \<and> hd s = CHR ''-'');
          s1 = (if neg then tl s else s)
      in case s1 of
           [] \<Rightarrow> None
         | d # t \<Rightarrow>
             if \<not> is_digit d then None
             else
               (let ds = (if d = CHR ''0'' then [d] else d # takeWhile is_digit t);
                    rest = (if d = CHR ''0'' then t else dropWhile is_digit t)
                in if rest \<noteq> [] \<and> hd rest \<in> {CHR ''.'', CHR ''e'', CHR ''E''} then None
                   else Some (PInt (if neg then - int (digits_value ds) else int (digits_value ds)),
                              rest)))"

text \<open>
  \<^verbatim>\<open>dict(pairs)\<close>: a key that comes again keeps its place and takes the later value.
\<close>

fun setitem :: "pydict \<Rightarrow> string \<Rightarrow> pyval \<Rightarrow> pydict" where
  "setitem [] k v = [(k, v)]"
| "setitem ((k', v') # d) k v = (if k' = k then (k', v) # d else (k', v') # setitem d k v)"

definition dict_of_pairs :: "(string \<times> pyval) list \<Rightarrow> pydict" where
  "dict_of_pairs ps = foldl (\<lambda>d (k, v). setitem d k v) [] ps"

text \<open>
  \<open>scan_once\<close> reads one value at the start of the text. \<open>scan_array\<close> is the loop of
  \<^verbatim>\<open>JSONArray\<close> once the array is known not to be empty, \<open>scan_object\<close> the loop of
  \<^verbatim>\<open>JSONObject\<close>, which starts at the quote of a key.
\<close>

fun scan_once :: "nat \<Rightarrow> string \<Rightarrow> (pyval \<times> string) option"
and scan_array :: "nat \<Rightarrow> string \<Rightarrow> (pyval list \<times> string) option"
and scan_object :: "nat \<Rightarrow> string \<Rightarrow> ((string \<times> pyval) list \<times> string) option" where
  "scan_once 0 s = None"
| "scan_once (Suc n) s =
     (case s of
        [] \<Rightarrow> None
      | c # cs \<Rightarrow>
          if c = CHR 0x22 then
            (case scanstring cs of None \<Rightarrow> None | Some (str, rest) \<Rightarrow> Some (PStr str, rest))
          else if c = CHR ''{'' then
            (case skip_ws cs of
               [] \<Rightarrow> None
             | c1 # cs1 \<Rightarrow>
                 if c1 = CHR ''}'' then Some (PDict [], cs1)
                 else (case scan_object n (c1 # cs1) of
                         None \<Rightarrow> None
                       | Some (pairs, rest) \<Rightarrow> Some (PDict (dict_of_pairs pairs), rest)))
          else if c = CHR ''['' then
            (case skip_ws cs of
               [] \<Rightarrow> None
             | c1 # cs1 \<Rightarrow>
                 if c1 = CHR '']'' then Some (PList [], cs1)
                 else (case scan_array n (c1 # cs1) of
                         None \<Rightarrow> None
                       | Some (vals, rest) \<Rightarrow> Some (PList vals, rest)))
          else if take 4 s = ''null'' then Some (PNone, drop 4 s)
          else if take 4 s = ''true'' then Some (PBool True, drop 4 s)
          else if take 5 s = ''false'' then Some (PBool False, drop 5 s)
          else scan_number s)"
| "scan_array 0 s = None"
| "scan_array (Suc n) s =
     (case scan_once n s of
        None \<Rightarrow> None
      | Some (v, rest) \<Rightarrow>
          (case skip_ws rest of
             [] \<Rightarrow> None
           | c # cs \<Rightarrow>
               if c = CHR '']'' then Some ([v], cs)
               else if c = CHR '','' then
                 (case scan_array n (skip_ws cs) of
                    None \<Rightarrow> None
                  | Some (vs, rest') \<Rightarrow> Some (v # vs, rest'))
               else None))"
| "scan_object 0 s = None"
| "scan_object (Suc n) s =
     (case s of
        [] \<Rightarrow> None
      | q # s1 \<Rightarrow>
          if q \<noteq> CHR 0x22 then None
          else
            (case scanstring s1 of
               None \<Rightarrow> None
             | Some (key, s2) \<Rightarrow>
                 (case skip_ws s2 of
                    [] \<Rightarrow> None
                  | colon # s3 \<Rightarrow>
                      if colon \<noteq> CHR '':'' then None
                      else
                        (case scan_once n (skip_ws s3) of
                           None \<Rightarrow> None
                         | Some (v, s4) \<Rightarrow>
                             (case skip_ws s4 of
                                [] \<Rightarrow> None
                              | c # s5 \<Rightarrow>
                                  if c = CHR ''}'' then Some ([(key, v)], s5)
                                  else if c = CHR '','' then
                                    (case scan_object n (skip_ws s5) of
                                       None \<Rightarrow> None
                                     | Some (pairs, rest) \<Rightarrow> Some ((key, v) # pairs, rest))
                                  else None)))))"

text \<open>\<^verbatim>\<open>json.loads\<close>: one value, with nothing but whitespace around it.\<close>

definition json_loads :: "string \<Rightarrow> pyval option" where
  "json_loads s =
     (case scan_once (Suc (length s)) (skip_ws s) of
        None \<Rightarrow> None
      | Some (obj, rest) \<Rightarrow> if skip_ws rest = [] then Some obj else None)"

text \<open>
  The representation invariant of Python objects: the keys of a dictionary are distinct,
  at every depth.
\<close>

fun wf_obj :: "pyval \<Rightarrow> bool" where
  "wf_obj (PList xs) = (\<forall>x \<in> set xs. wf_obj x)"
| "wf_obj (PDict d) = (distinct (map fst d) \<and> (\<forall>v \<in> set (map snd d). wf_obj v))"
| "wf_obj v = True"

text \<open>
  The strings of an object, keys included, hold no surrogate.
\<close>

fun strings_encodable :: "pyval \<Rightarrow> bool" where
  "strings_encodable (PStr s) = (\<not> has_surrogate s)"
| "strings_encodable (PList xs) = (\<forall>x \<in> set xs. strings_encodable x)"
| "strings_encodable (PDict d) =
     ((\<forall>k \<in> set (map fst d). \<not> has_surrogate k)
      \<and> (\<forall>v \<in> set (map snd d). strings_encodable v))"
| "strings_encodable v = True"

text \<open>
  A text that starts and ends with an ASCII character and holds no surrogate: such
  texts can be put together in any order.
\<close>

definition ascii_framed :: "string \<Rightarrow> bool" where
  "ascii_framed s =
     (s \<noteq> [] \<and> (of_char (hd s) :: nat) < 128 \<and> (of_char (last s) :: nat) < 128
      \<and> \<not> has_surrogate s)"

text \<open>
  What the encoder writes after a value (a comma, a newline or nothing), and how the text
  of a value starts (no whitespace, no closing bracket).
\<close>

definition ends_value :: "string \<Rightarrow> bool" where
  "ends_value rest = (case rest of [] \<Rightarrow> True | c # _ \<Rightarrow> c = CHR '','' \<or> c = CHR 0x0A)"

definition starts_value :: "string \<Rightarrow> bool" where
  "starts_value s = (case s of [] \<Rightarrow> False
                     | c # _ \<Rightarrow> \<not> is_ws c \<and> c \<noteq> CHR '']'' \<and> c \<noteq> CHR ''}'')"

section \<open>Command line\<close>

text \<open>
  The parsed arguments: at least one number, an optional output path and the format,
  which \<^verbatim>\<open>argparse\<close> restricts to \<^verbatim>\<open>json\<close> (the default) and \<^verbatim>\<open>csv\<close>.
  \<^verbatim>\<open>Path.expanduser\<close> and \<^verbatim>\<open>Path.resolve\<close> depend on the machine and are parameters.
\<close>

record args =
  numbers :: "string list"
  output_path :: "string option"
  format :: string

record pathlib =
  expanduser :: "string \<Rightarrow> string"
  resolve :: "string \<Rightarrow> string"

record world =
  stdout :: "string list"
  files :: filesystem

definition cli :: "'n phonelib \<Rightarrow> pathlib \<Rightarrow> args \<Rightarrow> world \<Rightarrow> world \<times> py_error option" where
  "cli lib os a w =
     (let results = lookup_all lib (numbers a) in
      case console_results results (stdout w) of
        (out, Some e) \<Rightarrow> (w\<lparr>stdout := out\<rparr>, Some e)
      | (out, None) \<Rightarrow>
          (case output_path a of
             None \<Rightarrow> (w\<lparr>stdout := out\<rparr>, None)
           | Some p \<Rightarrow>
               if p = [] then (w\<lparr>stdout := out\<rparr>, None)
               else
                 (let out_path = expanduser os p in
                  case (if format a = ''csv'' then write_csv out_path results (files w)
                        else write_json out_path results (files w)) of
                    (fs, Some e) \<Rightarrow> (\<lparr>stdout = out, files = fs\<rparr>, Some e)
                  | (fs, None) \<Rightarrow>
                      (\<lparr>stdout = out @ [CHR 0x0A # ''[+] Results written to '' @ resolve os out_path],
                        files = fs\<rparr>, None))))"

section \<open>Names of the specification\<close>

text \<open>The keys of a fully populated record, in the order of the dict display.\<close>

definition record_keys :: "string list" where
  "record_keys = [''input'', ''valid'', ''possible'', ''international_format'', ''e164_format'',
     ''country_code'', ''region'', ''carrier'', ''timezones'', ''type'']"

text \<open>The twelve line-type names of the specification.\<close>

definition line_type_names :: "string list" where
  "line_type_names = [''MOBILE'', ''FIXED_LINE'', ''FIXED_LINE_OR_MOBILE'', ''TOLL_FREE'',
     ''PREMIUM_RATE'', ''SHARED_COST'', ''VOIP'', ''PERSONAL_NUMBER'', ''PAGER'', ''UAN'',
     ''VOICEMAIL'', ''UNKNOWN'']"

section \<open>The console output as the specification words it\<close>

text \<open>
  The text of a field, and the strings of a list field; a field that is absent reads as
  empty.
\<close>

definition field_text :: "pydict \<Rightarrow> string \<Rightarrow> string" where
  "field_text res k = (case get res k (PStr []) of PStr s \<Rightarrow> s | PInt i \<Rightarrow> str_int i | _ \<Rightarrow> [])"

fun strings_of :: "pyval list \<Rightarrow> string list" where
  "strings_of [] = []"
| "strings_of (PStr s # vs) = s # strings_of vs"
| "strings_of (v # vs) = strings_of vs"

definition field_list :: "pydict \<Rightarrow> string \<Rightarrow> string list" where
  "field_list res k = (case get res k (PList []) of PList xs \<Rightarrow> strings_of xs | _ \<Rightarrow> [])"

text \<open>
  For a record whose \<^verbatim>\<open>valid\<close> field is false: one warning with the input and the error
  message. Otherwise: the international format (after an empty line), then the indented
  lines for region and country code, carrier, line type and time zones, with
  \<^verbatim>\<open>Unknown\<close> for an empty carrier and for an empty list of zones.
\<close>

definition console_spec :: "pydict \<Rightarrow> string list" where
  "console_spec res =
     (if get res ''valid'' (PBool False) = PBool False
      then [''[!] '' @ field_text res ''input'' @ '': Invalid '' @ en_dash @ '' ''
              @ field_text res ''error'']
      else [CHR 0x0A # field_text res ''international_format'',
            ''  Region      : '' @ field_text res ''region'' @ '' ( +''
              @ field_text res ''country_code'' @ '' )'',
            ''  Carrier     : ''
              @ (if field_text res ''carrier'' = [] then ''Unknown'' else field_text res ''carrier''),
            ''  Type        : '' @ field_text res ''type'',
            ''  Time'' @ nb_hyphen @ ''zones  : ''
              @ (if field_list res ''timezones'' = [] then ''Unknown''
                 else join '', '' (field_list res ''timezones''))])"

section \<open>Sample libraries\<close>

text \<open>
  Three small instances of the library interface, on which the theorems are evaluated.
  \<open>demo_lib\<close> behaves like a release whose \<^verbatim>\<open>PhoneNumberType\<close> is a plain class of integer
  constants: it can neither be called nor has it a table of names. \<open>demo_lib_enum\<close>
  resolves codes through an enumeration, \<open>demo_lib_table\<close> through the table only.
\<close>

definition parse_error_message :: string where
  "parse_error_message = ''(1) The string supplied did not seem to be a phone number.''"

definition demo_lib :: "string phonelib" where
  "demo_lib =
     \<lparr> parse = (\<lambda>s. case s of
                  [] \<Rightarrow> Inl parse_error_message
                | c # ds \<Rightarrow> if c = CHR ''+'' \<and> ds \<noteq> [] then Inr ds else Inl parse_error_message),
       is_valid_number = (\<lambda>n. n = ''12025550123''),
       is_possible_number = (\<lambda>n. length n = 11),
       format_number = (\<lambda>n f. case f of E164 \<Rightarrow> CHR ''+'' # n | _ \<Rightarrow> ''+1 '' @ drop 1 n),
       country_code = (\<lambda>n. 1),
       description_for_number = (\<lambda>n lang. ''Washington D.C.''),
       name_for_number = (\<lambda>n lang. []),
       time_zones_for_number = (\<lambda>n. [''America/New_York'']),
       number_type = (\<lambda>n. 2),
       PhoneNumberType_name = (\<lambda>c. None),
       VALUES_TO_NAMES = None \<rparr>"

definition enum_names :: "int \<Rightarrow> string option" where
  "enum_names = map_of [(0, ''FIXED_LINE''), (1, ''MOBILE''), (2, ''FIXED_LINE_OR_MOBILE''),
     (3, ''TOLL_FREE''), (4, ''PREMIUM_RATE''), (5, ''SHARED_COST''), (6, ''VOIP''),
     (7, ''PERSONAL_NUMBER''), (8, ''PAGER''), (9, ''UAN''), (10, ''VOICEMAIL''),
     (99, ''UNKNOWN'')]"

definition demo_lib_enum :: "string phonelib" where
  "demo_lib_enum = demo_lib\<lparr>PhoneNumberType_name := enum_names\<rparr>"

definition demo_lib_table :: "string phonelib" where
  "demo_lib_table = demo_lib\<lparr>VALUES_TO_NAMES := Some enum_names, number_type := (\<lambda>n. 27)\<rparr>"

section \<open>Properties of the lookup\<close>

lemma demo_parse_ok: "parse demo_lib ''+12025550123'' = Inr ''12025550123''"
  by (simp add: demo_lib_def)

lemma demo_parse_fail: "parse demo_lib ''not-a-number'' = Inl parse_error_message"
  by (simp add: demo_lib_def)

lemma lookup_all_map: "lookup_all lib nums = map (basic_lookup lib) nums"
  by (induction nums) simp_all

lemma str_int_2: "str_int 2 = ''2''"
  by code_simp

lemma is_digit_digit_char: "d < 10 \<Longrightarrow> is_digit (digit_char d)"
  by (simp add: is_digit_def digit_char_def)

lemma str_nat_digits: "\<forall>c \<in> set (str_nat n). is_digit c"
proof (induction n rule: str_nat.induct)
  case (1 n)
  show ?case
  proof (cases "n < 10")
    case True
    then show ?thesis by (subst str_nat.simps) (simp add: is_digit_digit_char)
  next
    case False
    with 1 show ?thesis by (subst str_nat.simps) (simp add: is_digit_digit_char)
  qed
qed

lemma str_nat_nonempty: "str_nat n \<noteq> []"
  by (subst str_nat.simps) simp

lemma str_int_start: "\<exists>c t. str_int i = c # t \<and> (c = CHR ''-'' \<or> is_digit c)"
proof (cases "i < 0")
  case True
  then show ?thesis by (simp add: str_int_def)
next
  case False
  obtain d t where dt: "str_nat (nat i) = d # t"
    using str_nat_nonempty [of "nat i"] by (cases "str_nat (nat i)") auto
  then have "is_digit d"
    using str_nat_digits [of "nat i"] by simp
  with dt False show ?thesis by (simp add: str_int_def)
qed

text \<open>
  C1. \<^verbatim>\<open>basic_lookup\<close> is a total function into records: no input makes it raise. When the
  parser fails with a message, the record is exactly the three entries \<^verbatim>\<open>input\<close>,
  \<^verbatim>\<open>valid: False\<close> and \<^verbatim>\<open>error\<close> with that message; when it succeeds, the record has the ten
  keys of the populated shape, each holding the value the library computes.
\<close>

theorem basic_lookup_shapes:
  "(\<forall>msg. parse lib raw = Inl msg \<longrightarrow>
      basic_lookup lib raw = [(''input'', PStr raw), (''valid'', PBool False), (''error'', PStr msg)])
   \<and> (\<forall>parsed. parse lib raw = Inr parsed \<longrightarrow>
      (let r = basic_lookup lib raw in
       keys r = record_keys
       \<and> getitem r ''input'' = Inr (PStr raw)
       \<and> getitem r ''valid'' = Inr (PBool (is_valid_number lib parsed \<and> is_possible_number lib parsed))
       \<and> getitem r ''possible'' = Inr (PBool (is_possible_number lib parsed))
       \<and> getitem r ''international_format'' = Inr (PStr (format_number lib parsed INTERNATIONAL))
       \<and> getitem r ''e164_format'' = Inr (PStr (format_number lib parsed E164))
       \<and> getitem r ''country_code'' = Inr (PInt (country_code lib parsed))
       \<and> getitem r ''region'' = Inr (PStr (description_for_number lib parsed ''en''))
       \<and> getitem r ''carrier'' = Inr (PStr (name_for_number lib parsed ''en''))
       \<and> getitem r ''timezones'' = Inr (PList (map PStr (time_zones_for_number lib parsed)))
       \<and> getitem r ''type'' = Inr (PStr (phone_type_name lib parsed))))"
  by (simp add: basic_lookup_def keys_def getitem_def record_keys_def Let_def)

theorem basic_lookup_shapes_witness:
  "parse demo_lib ''not-a-number'' = Inl parse_error_message
   \<and> basic_lookup demo_lib ''not-a-number'' =
       [(''input'', PStr ''not-a-number''), (''valid'', PBool False), (''error'', PStr parse_error_message)]
   \<and> parse demo_lib ''+12025550123'' = Inr ''12025550123''
   \<and> keys (basic_lookup demo_lib ''+12025550123'') = record_keys
   \<and> getitem (basic_lookup demo_lib ''+12025550123'') ''e164_format'' = Inr (PStr ''+12025550123'')"
  using basic_lookup_shapes [of demo_lib "''not-a-number''"]
        basic_lookup_shapes [of demo_lib "''+12025550123''"]
        demo_parse_ok demo_parse_fail
  by (simp add: Let_def demo_lib_def)

text \<open>
  C2. For an input the parser accepts, the \<^verbatim>\<open>valid\<close> field is the conjunction of the
  library's validity predicate and its possibility predicate.
\<close>

theorem valid_is_conjunction:
  "parse lib raw = Inr parsed \<Longrightarrow>
   getitem (basic_lookup lib raw) ''valid'' =
     Inr (PBool (is_valid_number lib parsed \<and> is_possible_number lib parsed))"
  by (simp add: basic_lookup_def getitem_def Let_def)

theorem valid_is_conjunction_witness:
  "parse demo_lib ''+12025550199'' = Inr ''12025550199''
   \<and> is_possible_number demo_lib ''12025550199''
   \<and> \<not> is_valid_number demo_lib ''12025550199''
   \<and> getitem (basic_lookup demo_lib ''+12025550199'') ''valid'' = Inr (PBool False)"
proof -
  have p: "parse demo_lib ''+12025550199'' = Inr ''12025550199''"
    by (simp add: demo_lib_def)
  show ?thesis
    using p valid_is_conjunction [OF p] by (simp add: demo_lib_def)
qed

text \<open>
  C9. In the record of an accepted input, \<^verbatim>\<open>valid\<close> true implies \<^verbatim>\<open>possible\<close> true.
\<close>

theorem valid_implies_possible:
  "parse lib raw = Inr parsed \<Longrightarrow>
   getitem (basic_lookup lib raw) ''valid'' = Inr (PBool True) \<Longrightarrow>
   getitem (basic_lookup lib raw) ''possible'' = Inr (PBool True)"
  by (simp add: basic_lookup_def getitem_def Let_def)

theorem valid_implies_possible_witness:
  "parse demo_lib ''+12025550123'' = Inr ''12025550123''
   \<and> getitem (basic_lookup demo_lib ''+12025550123'') ''valid'' = Inr (PBool True)
   \<and> getitem (basic_lookup demo_lib ''+12025550123'') ''possible'' = Inr (PBool True)"
proof -
  have v: "getitem (basic_lookup demo_lib ''+12025550123'') ''valid'' = Inr (PBool True)"
    by (simp add: basic_lookup_def getitem_def Let_def demo_lib_def)
  show ?thesis
    using demo_parse_ok v valid_implies_possible [OF demo_parse_ok v] by simp
qed

text \<open>
  C8. The results of a run are one record for each input, in the order of the inputs:
  the list of results is the pointwise image of the inputs under \<^verbatim>\<open>basic_lookup\<close>.
\<close>

theorem lookup_all_pointwise:
  "lookup_all lib nums = map (basic_lookup lib) nums
   \<and> length (lookup_all lib nums) = length nums
   \<and> (\<forall>i < length nums. lookup_all lib nums ! i = basic_lookup lib (nums ! i))"
  by (simp add: lookup_all_map)

theorem lookup_all_pointwise_witness:
  "lookup_all demo_lib [''+12025550123'', ''not-a-number''] ! 1 = basic_lookup demo_lib ''not-a-number''
   \<and> length (lookup_all demo_lib [''+12025550123'', ''not-a-number'']) = 2"
  using lookup_all_pointwise [of demo_lib "[''+12025550123'', ''not-a-number'']"]
  by simp

subsection \<open>The line type\<close>

text \<open>
  The three levels of \<^verbatim>\<open>_phone_type_name\<close>: the name of the enumeration member when that
  resolution succeeds; otherwise the entry of the table of names for the code, and
  \<^verbatim>\<open>UNKNOWN\<close> when the table has no entry; otherwise, when the table cannot be read
  either, the decimal text of the code. The result is one of the twelve names whenever
  one of the first two levels is available and gives one of them.
\<close>

lemma phone_type_name_levels:
  assumes "parse lib raw = Inr parsed"
  shows "let c = number_type lib parsed; t = getitem (basic_lookup lib raw) ''type'' in
     (\<forall>name. PhoneNumberType_name lib c = Some name \<longrightarrow> t = Inr (PStr name))
   \<and> (\<forall>tbl name. PhoneNumberType_name lib c = None \<and> VALUES_TO_NAMES lib = Some tbl
          \<and> tbl c = Some name \<longrightarrow> t = Inr (PStr name))
   \<and> (\<forall>tbl. PhoneNumberType_name lib c = None \<and> VALUES_TO_NAMES lib = Some tbl
          \<and> tbl c = None \<longrightarrow> t = Inr (PStr ''UNKNOWN''))
   \<and> (PhoneNumberType_name lib c = None \<and> VALUES_TO_NAMES lib = None \<longrightarrow>
          t = Inr (PStr (str_int c)))
   \<and> ((\<forall>name. PhoneNumberType_name lib c = Some name \<longrightarrow> name \<in> set line_type_names)
        \<and> (\<forall>tbl name. VALUES_TO_NAMES lib = Some tbl \<and> tbl c = Some name \<longrightarrow>
               name \<in> set line_type_names)
        \<and> (PhoneNumberType_name lib c \<noteq> None \<or> VALUES_TO_NAMES lib \<noteq> None) \<longrightarrow>
          (\<exists>name \<in> set line_type_names. t = Inr (PStr name)))"
proof -
  have t: "getitem (basic_lookup lib raw) ''type'' = Inr (PStr (phone_type_name lib parsed))"
    using assms by (simp add: basic_lookup_def getitem_def Let_def)
  have u: "''UNKNOWN'' \<in> set line_type_names"
    by (simp add: line_type_names_def)
  show ?thesis
    unfolding Let_def t phone_type_name_def
    using u by (auto split: option.splits)
qed

lemma phone_type_name_levels_demo:
  "getitem (basic_lookup demo_lib_enum ''+12025550123'') ''type'' = Inr (PStr ''FIXED_LINE_OR_MOBILE'')
   \<and> getitem (basic_lookup demo_lib_table ''+12025550123'') ''type'' = Inr (PStr ''UNKNOWN'')
   \<and> getitem (basic_lookup demo_lib ''+12025550123'') ''type'' = Inr (PStr ''2'')
   \<and> (\<exists>name \<in> set line_type_names.
         getitem (basic_lookup demo_lib_enum ''+12025550123'') ''type'' = Inr (PStr name))"
proof -
  have p1: "parse demo_lib_enum ''+12025550123'' = Inr ''12025550123''"
    by (simp add: demo_lib_enum_def demo_lib_def)
  have p2: "parse demo_lib_table ''+12025550123'' = Inr ''12025550123''"
    by (simp add: demo_lib_table_def demo_lib_def)
  note l1 = phone_type_name_levels [OF p1, unfolded Let_def]
  note l2 = phone_type_name_levels [OF p2, unfolded Let_def]
  note l3 = phone_type_name_levels [OF demo_parse_ok, unfolded Let_def]
  have h1: "PhoneNumberType_name demo_lib_enum (number_type demo_lib_enum ''12025550123'')
              = Some ''FIXED_LINE_OR_MOBILE''"
    by (simp add: demo_lib_enum_def demo_lib_def enum_names_def)
  have h2: "PhoneNumberType_name demo_lib_table (number_type demo_lib_table ''12025550123'') = None
            \<and> VALUES_TO_NAMES demo_lib_table = Some enum_names
            \<and> enum_names (number_type demo_lib_table ''12025550123'') = None"
    by (simp add: demo_lib_table_def demo_lib_def enum_names_def)
  have h3: "PhoneNumberType_name demo_lib (number_type demo_lib ''12025550123'') = None
            \<and> VALUES_TO_NAMES demo_lib = None"
    by (simp add: demo_lib_def)
  have n3: "number_type demo_lib ''12025550123'' = 2"
    by (simp add: demo_lib_def)
  have h4: "(\<forall>name. PhoneNumberType_name demo_lib_enum (number_type demo_lib_enum ''12025550123'')
                 = Some name \<longrightarrow> name \<in> set line_type_names)
            \<and> (\<forall>tbl name. VALUES_TO_NAMES demo_lib_enum = Some tbl
                 \<and> tbl (number_type demo_lib_enum ''12025550123'') = Some name \<longrightarrow>
                 name \<in> set line_type_names)
            \<and> (PhoneNumberType_name demo_lib_enum (number_type demo_lib_enum ''12025550123'') \<noteq> None
                 \<or> VALUES_TO_NAMES demo_lib_enum \<noteq> None)"
    by (simp add: demo_lib_enum_def demo_lib_def enum_names_def line_type_names_def)
  have a: "getitem (basic_lookup demo_lib_enum ''+12025550123'') ''type'' = Inr (PStr ''FIXED_LINE_OR_MOBILE'')"
    by (rule l1 [THEN conjunct1, rule_format, OF h1])
  have b: "getitem (basic_lookup demo_lib_table ''+12025550123'') ''type'' = Inr (PStr ''UNKNOWN'')"
    by (rule l2 [THEN conjunct2, THEN conjunct2, THEN conjunct1, rule_format, OF h2])
  have c: "getitem (basic_lookup demo_lib ''+12025550123'') ''type'' = Inr (PStr ''2'')"
    using l3 [THEN conjunct2, THEN conjunct2, THEN conjunct2, THEN conjunct1, rule_format, OF h3]
    by (simp only: n3 str_int_2)
  have d: "\<exists>name \<in> set line_type_names.
         getitem (basic_lookup demo_lib_enum ''+12025550123'') ''type'' = Inr (PStr name)"
    by (rule l1 [THEN conjunct2, THEN conjunct2, THEN conjunct2, THEN conjunct2, rule_format, OF h4])
  from a b c d show ?thesis by simp
qed

text \<open>
  The decimal text of a code starts with a digit or a minus sign, so it is none of the
  twelve names.
\<close>

lemma str_int_not_a_name: "str_int i \<notin> set line_type_names"
proof -
  obtain c t where ct: "str_int i = c # t" "c = CHR ''-'' \<or> is_digit c"
    using str_int_start by blast
  from ct(2) have "c \<notin> {CHR ''M'', CHR ''F'', CHR ''T'', CHR ''P'', CHR ''S'', CHR ''V'', CHR ''U''}"
    by (auto simp: is_digit_def)
  then show ?thesis
    by (auto simp: ct(1) line_type_names_def)
qed

text \<open>
  C5. The \<^verbatim>\<open>type\<close> field is not always one of the twelve names. With a release of the
  library whose \<^verbatim>\<open>PhoneNumberType\<close> is a plain class of integer constants, calling it
  raises and it has no table \<^verbatim>\<open>_VALUES_TO_NAMES\<close>; both name resolutions fail for every
  accepted input, and the field is the decimal text of the code, such as \<^verbatim>\<open>2\<close> for a
  number that is fixed line or mobile.
\<close>

theorem type_is_code_when_unresolved:
  assumes "parse lib raw = Inr parsed"
    and "PhoneNumberType_name lib (number_type lib parsed) = None"
    and "VALUES_TO_NAMES lib = None"
  shows "getitem (basic_lookup lib raw) ''type'' = Inr (PStr (str_int (number_type lib parsed)))
         \<and> str_int (number_type lib parsed) \<notin> set line_type_names"
  using assms
  by (simp add: basic_lookup_def getitem_def Let_def phone_type_name_def str_int_not_a_name)

theorem type_is_code_when_unresolved_witness:
  "parse demo_lib ''+12025550123'' = Inr ''12025550123''
   \<and> getitem (basic_lookup demo_lib ''+12025550123'') ''type'' = Inr (PStr ''2'')
   \<and> ''2'' \<notin> set line_type_names"
proof -
  have h: "PhoneNumberType_name demo_lib (number_type demo_lib ''12025550123'') = None"
          "VALUES_TO_NAMES demo_lib = None"
    by (simp_all add: demo_lib_def)
  have n: "number_type demo_lib ''12025550123'' = 2"
    by (simp add: demo_lib_def)
  show ?thesis
    using type_is_code_when_unresolved [OF demo_parse_ok h] demo_parse_ok
    by (simp only: n str_int_2) simp
qed

section \<open>Properties of the console output\<close>


lemma all_str_map_PStr: "all_str (map PStr xs) = Inr xs"
  by (induction xs) (simp_all add: err_bind_def)

lemma strings_of_map_PStr: "strings_of (map PStr xs) = xs"
  by (induction xs) simp_all

lemma console_record_error:
  "parse lib raw = Inl msg \<Longrightarrow>
   console_record (basic_lookup lib raw) out = (out @ console_spec (basic_lookup lib raw), None)"
  by (simp add: basic_lookup_def console_record_def console_spec_def get_def getitem_def
      invalid_line_def err_bind_def field_text_def)

lemma console_record_parsed:
  "parse lib raw = Inr parsed \<Longrightarrow>
   console_record (basic_lookup lib raw) out = (out @ console_spec (basic_lookup lib raw), None)"
  by (simp add: basic_lookup_def console_record_def console_spec_def get_def getitem_def
      invalid_line_def intl_line_def region_line_def carrier_line_def type_line_def
      timezones_line_def err_bind_def field_text_def field_list_def py_or_def Let_def
      all_str_map_PStr strings_of_map_PStr)

lemma console_record_lookup:
  "console_record (basic_lookup lib raw) out = (out @ console_spec (basic_lookup lib raw), None)"
  by (cases "parse lib raw") (simp_all add: console_record_error console_record_parsed)

lemma console_results_lines:
  "console_results (lookup_all lib nums) out
     = (out @ concat (map console_spec (lookup_all lib nums)), None)"
  by (induction nums arbitrary: out) (simp_all add: console_record_lookup)



section \<open>Properties of the serializers\<close>

lemma get_header: "k \<in> set fieldnames \<Longrightarrow> get (map (\<lambda>k. (k, PStr k)) fieldnames) k d = PStr k"
  by (simp add: get_def map_of_map_restrict)

lemma dict_to_list_subset:
  "set (keys rowdict) \<subseteq> set fieldnames \<Longrightarrow>
   dict_to_list fieldnames rowdict = Inr (map (\<lambda>key. get rowdict key (PStr [])) fieldnames)"
  by (auto simp: dict_to_list_def Let_def filter_empty_conv)

lemma dict_to_list_extra:
  "\<not> set (keys rowdict) \<subseteq> set fieldnames \<Longrightarrow>
   dict_to_list fieldnames rowdict = Inl ValueError"
  by (auto simp: dict_to_list_def Let_def filter_empty_conv)

lemma writerow_written:
  assumes "set (keys rowdict) \<subseteq> set fieldnames"
    and "\<forall>k \<in> set fieldnames. encodable_cell (get rowdict k (PStr []))"
  shows "writerow fieldnames rowdict fh
           = (fh @ [map (\<lambda>key. get rowdict key (PStr [])) fieldnames], None)"
  using assms by (simp add: writerow_def dict_to_list_subset list_all_iff)

lemma writerow_surrogate:
  assumes "set (keys rowdict) \<subseteq> set fieldnames"
    and "\<not> (\<forall>k \<in> set fieldnames. encodable_cell (get rowdict k (PStr [])))"
  shows "writerow fieldnames rowdict fh = (fh, Some UnicodeEncodeError)"
  using assms by (simp add: writerow_def dict_to_list_subset list_all_iff)

lemma writeheader_row:
  assumes "\<forall>k \<in> set fieldnames. \<not> has_surrogate k"
  shows "writeheader fieldnames fh = (fh @ [map PStr fieldnames], None)"
proof -
  let ?header = "map (\<lambda>k. (k, PStr k)) fieldnames"
  have k: "set (keys ?header) \<subseteq> set fieldnames"
    by (simp add: keys_def comp_def)
  have c: "\<forall>k \<in> set fieldnames. encodable_cell (get ?header k (PStr []))"
    using assms by (simp add: get_header)
  have "map (\<lambda>key. get ?header key (PStr [])) fieldnames = map PStr fieldnames"
    by (simp add: get_header)
  with writerow_written [OF k c, of fh] show ?thesis
    by (simp add: writeheader_def)
qed

lemma writerows_subset:
  assumes "\<forall>r \<in> set rows. set (keys r) \<subseteq> set fieldnames"
    and "\<forall>r \<in> set rows. \<forall>k \<in> set fieldnames. encodable_cell (get r k (PStr []))"
  shows "writerows fieldnames rows fh
     = (fh @ map (\<lambda>r. map (\<lambda>key. get r key (PStr [])) fieldnames) rows, None)"
  using assms by (induction rows arbitrary: fh) (simp_all add: writerow_written)

lemma record_keys_encodable: "\<forall>k \<in> set record_keys. \<not> has_surrogate k"
  by (simp add: record_keys_def)

lemma error_keys_encodable: "\<forall>k \<in> set [''input'', ''valid'', ''error'']. \<not> has_surrogate k"
  by simp

text \<open>
  A run with an accepted and a rejected input never ends well with the CSV format: the
  two records have different keys, so the writer raises \<^verbatim>\<open>ValueError\<close> at the second
  record, unless the first could not be encoded.
\<close>

lemma write_csv_mixed_raises:
  assumes "parse lib a = Inr parsed" "parse lib b = Inl msg"
  shows "snd (write_csv path (lookup_all lib [a, b]) fs) \<in> {Some ValueError, Some UnicodeEncodeError}"
    and "snd (write_csv path (lookup_all lib [b, a]) fs) \<in> {Some ValueError, Some UnicodeEncodeError}"
proof -
  have ka: "keys (basic_lookup lib a) = record_keys"
    using assms(1) by (simp add: basic_lookup_def keys_def record_keys_def Let_def)
  have kb: "keys (basic_lookup lib b) = [''input'', ''valid'', ''error'']"
    using assms(2) by (simp add: basic_lookup_def keys_def)
  have ha: "writeheader record_keys [] = ([map PStr record_keys], None)"
    using record_keys_encodable by (simp add: writeheader_row)
  have hb: "writeheader [''input'', ''valid'', ''error''] []
              = ([map PStr [''input'', ''valid'', ''error'']], None)"
    using error_keys_encodable by (rule writeheader_row [of _ "[]", simplified])
  have xa: "dict_to_list [''input'', ''valid'', ''error''] (basic_lookup lib a) = Inl ValueError"
    by (rule dict_to_list_extra) (simp add: ka record_keys_def)
  have xb: "dict_to_list record_keys (basic_lookup lib b) = Inl ValueError"
    by (rule dict_to_list_extra) (simp add: kb record_keys_def)
  have da: "dict_to_list record_keys (basic_lookup lib a)
              = Inr (map (\<lambda>key. get (basic_lookup lib a) key (PStr [])) record_keys)"
    by (rule dict_to_list_subset) (simp add: ka)
  have db: "dict_to_list [''input'', ''valid'', ''error''] (basic_lookup lib b)
              = Inr (map (\<lambda>key. get (basic_lookup lib b) key (PStr [])) [''input'', ''valid'', ''error''])"
    by (rule dict_to_list_subset) (simp add: kb)
  show "snd (write_csv path (lookup_all lib [a, b]) fs) \<in> {Some ValueError, Some UnicodeEncodeError}"
    by (simp add: write_csv_def ka ha Let_def writerow_def da xb)
  show "snd (write_csv path (lookup_all lib [b, a]) fs) \<in> {Some ValueError, Some UnicodeEncodeError}"
    by (simp add: write_csv_def kb hb Let_def writerow_def db xa)
qed

text \<open>
  A run with one accepted and one rejected input: the record of the rejected input has
  the key \<^verbatim>\<open>error\<close>, which is no field name, so \<^verbatim>\<open>DictWriter\<close> raises
  \<^verbatim>\<open>ValueError\<close> and the file holds the header and one data row for two records.
\<close>

theorem write_csv_mixed_batch:
  "fst (write_csv ''out.csv'' (lookup_all demo_lib [''+12025550123'', ''not-a-number'']) Map.empty)
       ''out.csv''
   = Some (CsvFile [map PStr record_keys,
       [PStr ''+12025550123'', PBool True, PBool True, PStr ''+1 2025550123'', PStr ''+12025550123'',
        PInt 1, PStr ''Washington D.C.'', PStr [], PList [PStr ''America/New_York''], PStr ''2'']])
   \<and> snd (write_csv ''out.csv'' (lookup_all demo_lib [''+12025550123'', ''not-a-number'']) Map.empty)
     = Some ValueError"
  by (simp add: write_csv_def writeheader_def writerow_def dict_to_list_def basic_lookup_def demo_lib_def
       keys_def get_def record_keys_def phone_type_name_def str_int_2 Let_def)

text \<open>
  A single rejected input that holds a byte which is not UTF-8, so a lone surrogate in
  the string: the header is written, the row raises \<^verbatim>\<open>UnicodeEncodeError\<close>, and the file
  holds no data row for one record.
\<close>

lemma write_csv_surrogate:
  "fst (write_csv ''out.csv'' (lookup_all demo_lib [[CHR 0xED, CHR 0xB3, CHR 0xBF]]) Map.empty)
       ''out.csv''
   = Some (CsvFile [[PStr ''input'', PStr ''valid'', PStr ''error'']])
   \<and> snd (write_csv ''out.csv'' (lookup_all demo_lib [[CHR 0xED, CHR 0xB3, CHR 0xBF]]) Map.empty)
     = Some UnicodeEncodeError"
  by (simp add: write_csv_def writeheader_def writerow_def dict_to_list_def basic_lookup_def demo_lib_def
       keys_def get_def Let_def)

text \<open>
  C4, as amended. When every record's keys are among the keys of the first record, and
  neither these keys nor the string values written under them hold a surrogate, the
  file holds one header row, equal to the key sequence of the first record, and then
  one data row for each record, in order, with the empty string for a key the record
  lacks; for no records nothing is written.
\<close>

theorem write_csv_uniform:
  assumes "\<forall>r \<in> set rows. set (keys r) \<subseteq> set (keys (hd rows))"
    and "\<forall>k \<in> set (keys (hd rows)). \<not> has_surrogate k"
    and "\<forall>r \<in> set rows. \<forall>k \<in> set (keys (hd rows)). encodable_cell (get r k (PStr []))"
  shows "write_csv path rows fs =
     (if rows = [] then (fs, None)
      else (fs(path \<mapsto> CsvFile (map PStr (keys (hd rows))
                 # map (\<lambda>r. map (\<lambda>key. get r key (PStr [])) (keys (hd rows))) rows)), None))"
proof (cases rows)
  case Nil
  then show ?thesis by (simp add: write_csv_def)
next
  case (Cons first rest)
  from assms(2) Cons have h: "writeheader (keys first) [] = ([map PStr (keys first)], None)"
    by (simp add: writeheader_row)
  from assms(1) Cons have s: "\<forall>r \<in> set (first # rest). set (keys r) \<subseteq> set (keys first)"
    by simp
  from assms(3) Cons
  have e: "\<forall>r \<in> set (first # rest). \<forall>k \<in> set (keys first). encodable_cell (get r k (PStr []))"
    by simp
  have w: "writerows (keys first) (first # rest) [map PStr (keys first)]
     = ([map PStr (keys first)]
          @ map (\<lambda>r. map (\<lambda>key. get r key (PStr [])) (keys first)) (first # rest), None)"
    using s e by (rule writerows_subset)
  show ?thesis
    unfolding Cons
    by (simp add: write_csv_def h w Let_def del: writerows.simps)
qed

theorem write_csv_uniform_witness:
  "write_csv ''out.csv'' [[(''a'', PInt 1), (''b'', PStr ''x'')], [(''b'', PStr ''y'')]] Map.empty
     = (Map.empty(''out.csv'' \<mapsto>
          CsvFile [[PStr ''a'', PStr ''b''], [PInt 1, PStr ''x''], [PStr [], PStr ''y'']]),
        None)"
proof -
  let ?rows = "[[(''a'', PInt 1), (''b'', PStr ''x'')], [(''b'', PStr ''y'')]]"
  have h1: "\<forall>r \<in> set ?rows. set (keys r) \<subseteq> set (keys (hd ?rows))"
    by (simp add: keys_def)
  have h2: "\<forall>k \<in> set (keys (hd ?rows)). \<not> has_surrogate k"
    by (simp add: keys_def)
  have h3: "\<forall>r \<in> set ?rows. \<forall>k \<in> set (keys (hd ?rows)). encodable_cell (get r k (PStr []))"
    by (simp add: keys_def get_def)
  show ?thesis
    using write_csv_uniform [OF h1 h2 h3, of "''out.csv''" Map.empty]
    by (simp add: keys_def get_def)
qed

text \<open>
  C10. Given no rows, \<^verbatim>\<open>write_csv\<close> returns at once: the file system is the one it was
  given, so the target path is neither created nor truncated nor changed.
\<close>

theorem write_csv_empty_untouched:
  "write_csv path [] fs = (fs, None)"
  by (simp add: write_csv_def)

section \<open>Properties of a run\<close>

text \<open>
  What \<^verbatim>\<open>cli\<close> leaves behind: without an output path the console lines only; with the
  JSON format and a text that can be encoded the lines, the file and the closing
  message; and with the CSV format and one accepted and one rejected input the lines
  and the exception of the writer, which nothing catches.
\<close>

lemma cli_console_only:
  assumes "output_path a = None \<or> output_path a = Some []"
  shows "cli lib os a w
           = (w\<lparr>stdout := stdout w @ concat (map console_spec (lookup_all lib (numbers a)))\<rparr>, None)"
  using assms by (auto simp: cli_def console_results_lines Let_def)

lemma cli_json:
  assumes "output_path a = Some p" "p \<noteq> []" "format a \<noteq> ''csv''"
    and "\<not> has_surrogate (json_dumps 2 (PList (map PDict (lookup_all lib (numbers a)))))"
  shows "cli lib os a w
           = (\<lparr>stdout = stdout w @ concat (map console_spec (lookup_all lib (numbers a)))
                        @ [CHR 0x0A # ''[+] Results written to '' @ resolve os (expanduser os p)],
               files = (files w)(expanduser os p \<mapsto>
                         TextFile (json_dumps 2 (PList (map PDict (lookup_all lib (numbers a))))))\<rparr>,
              None)"
  using assms by (simp add: cli_def console_results_lines write_json_def encode_utf8_def Let_def)

lemma cli_csv_mixed:
  assumes "output_path a = Some p" "p \<noteq> []" "format a = ''csv''"
    and "numbers a = [x, y]" "parse lib x = Inr parsed" "parse lib y = Inl msg"
  shows "snd (cli lib os a w) \<in> {Some ValueError, Some UnicodeEncodeError}"
    and "stdout (fst (cli lib os a w))
           = stdout w @ concat (map console_spec (lookup_all lib [x, y]))"
proof -
  have "snd (write_csv (expanduser os p) (lookup_all lib [x, y]) (files w))
          \<in> {Some ValueError, Some UnicodeEncodeError}"
    using assms(5,6) by (rule write_csv_mixed_raises(1))
  then obtain fs e where fs: "write_csv (expanduser os p) (lookup_all lib [x, y]) (files w) = (fs, Some e)"
    and e: "e = ValueError \<or> e = UnicodeEncodeError"
    by (cases "write_csv (expanduser os p) (lookup_all lib [x, y]) (files w)") auto
  have c: "cli lib os a w
      = (\<lparr>stdout = stdout w @ concat (map console_spec (lookup_all lib [x, y])), files = fs\<rparr>,
         Some e)"
    using assms(1-4) fs
    by (simp add: cli_def console_results_lines Let_def del: lookup_all.simps)
  show "snd (cli lib os a w) \<in> {Some ValueError, Some UnicodeEncodeError}"
    using e by (auto simp: c)
  show "stdout (fst (cli lib os a w)) = stdout w @ concat (map console_spec (lookup_all lib [x, y]))"
    by (simp add: c)
qed

section \<open>The JSON round trip\<close>

subsection \<open>Strings\<close>

lemma hex_value_hex_digit: "d < 16 \<Longrightarrow> hex_value (hex_digit d) = Some d"
  by (auto simp: hex_value_def hex_digit_def Let_def)

lemma prepend_Some: "prepend pre (Some (s, rest)) = Some (pre @ s, rest)"
  by (simp add: prepend_def)

lemma decode_control:
  assumes "(of_char c :: nat) < 32"
  shows "decode_uXXXX (CHR ''0'') (CHR ''0'') (hex_digit ((of_char c :: nat) div 16))
           (hex_digit ((of_char c :: nat) mod 16)) = Some [c]"
proof -
  have z: "hex_value (CHR ''0'') = Some 0"
    by (simp add: hex_value_def)
  have a: "hex_value (hex_digit ((of_char c :: nat) div 16)) = Some ((of_char c :: nat) div 16)"
    using assms by (intro hex_value_hex_digit) simp
  have b: "hex_value (hex_digit ((of_char c :: nat) mod 16)) = Some ((of_char c :: nat) mod 16)"
    by (intro hex_value_hex_digit) simp
  show ?thesis
    using assms by (simp add: decode_uXXXX_def z a b utf8_encode_def)
qed

lemma escape_char_control:
  assumes "(of_char c :: nat) < 32"
    and "c \<noteq> CHR 0x08" "c \<noteq> CHR 0x0C" "c \<noteq> CHR 0x0A" "c \<noteq> CHR 0x0D" "c \<noteq> CHR 0x09"
  shows "escape_char c = [CHR 0x5C, CHR ''u'', CHR ''0'', CHR ''0'',
         hex_digit ((of_char c :: nat) div 16), hex_digit ((of_char c :: nat) mod 16)]"
proof -
  have "c \<noteq> CHR 0x5C" "c \<noteq> CHR 0x22"
    using assms(1) by auto
  with assms show ?thesis
    by (simp add: escape_char_def)
qed

lemma escape_char_plain:
  assumes "\<not> (of_char c :: nat) < 32" "c \<noteq> CHR 0x5C" "c \<noteq> CHR 0x22"
  shows "escape_char c = [c]"
proof -
  have "c \<noteq> CHR 0x08" "c \<noteq> CHR 0x0C" "c \<noteq> CHR 0x0A" "c \<noteq> CHR 0x0D" "c \<noteq> CHR 0x09"
    using assms(1) by auto
  with assms show ?thesis
    by (simp add: escape_char_def)
qed

lemma scanstring_named:
  "scanstring (escape_char (CHR 0x5C) @ t) = prepend [CHR 0x5C] (scanstring t)"
  "scanstring (escape_char (CHR 0x22) @ t) = prepend [CHR 0x22] (scanstring t)"
  "scanstring (escape_char (CHR 0x08) @ t) = prepend [CHR 0x08] (scanstring t)"
  "scanstring (escape_char (CHR 0x0C) @ t) = prepend [CHR 0x0C] (scanstring t)"
  "scanstring (escape_char (CHR 0x0A) @ t) = prepend [CHR 0x0A] (scanstring t)"
  "scanstring (escape_char (CHR 0x0D) @ t) = prepend [CHR 0x0D] (scanstring t)"
  "scanstring (escape_char (CHR 0x09) @ t) = prepend [CHR 0x09] (scanstring t)"
  by (simp_all add: escape_char_def unescape_def)

lemma scanstring_escape_char:
  "scanstring (escape_char c @ t) = prepend [c] (scanstring t)"
proof -
  consider (named) "c = CHR 0x5C \<or> c = CHR 0x22 \<or> c = CHR 0x08 \<or> c = CHR 0x0C
                    \<or> c = CHR 0x0A \<or> c = CHR 0x0D \<or> c = CHR 0x09"
    | (ctl) "(of_char c :: nat) < 32" "c \<noteq> CHR 0x08" "c \<noteq> CHR 0x0C" "c \<noteq> CHR 0x0A"
            "c \<noteq> CHR 0x0D" "c \<noteq> CHR 0x09"
    | (plain) "\<not> (of_char c :: nat) < 32" "c \<noteq> CHR 0x5C" "c \<noteq> CHR 0x22"
    by blast
  then show ?thesis
  proof cases
    case named
    then show ?thesis
      using scanstring_named [of t] by (elim disjE) (simp_all only:)
  next
    case ctl
    show ?thesis
      by (simp add: escape_char_control [OF ctl] decode_control [OF ctl(1)])
  next
    case plain
    show ?thesis
      using plain by (simp add: escape_char_plain [OF plain])
  qed
qed

lemma scanstring_escaped:
  "scanstring (concat (map escape_char s) @ CHR 0x22 # rest) = Some (s, rest)"
  by (induction s) (simp_all add: scanstring_escape_char prepend_Some)

lemma scanstring_basestring:
  "encode_basestring s @ rest = CHR 0x22 # concat (map escape_char s) @ CHR 0x22 # rest"
  by (simp add: encode_basestring_def)

subsection \<open>Integers\<close>

lemma digit_char_value: "d < 10 \<Longrightarrow> (of_char (digit_char d) :: nat) - 48 = d"
  by (simp add: digit_char_def)

lemma digit_char_zero: "d < 10 \<Longrightarrow> digit_char d = CHR ''0'' \<longleftrightarrow> d = 0"
proof -
  assume d: "d < 10"
  have "digit_char d = CHR ''0'' \<longleftrightarrow> (of_char (digit_char d) :: nat) = of_char (CHR ''0'')"
    by (simp only: of_char_eq_iff)
  also have "\<dots> \<longleftrightarrow> d = 0"
    using d by (simp add: digit_char_def)
  finally show ?thesis .
qed

lemma digits_value_snoc: "digits_value (ds @ [c]) = 10 * digits_value ds + ((of_char c :: nat) - 48)"
  by (simp add: digits_value_def)

lemma digits_value_str_nat: "digits_value (str_nat n) = n"
proof (induction n rule: str_nat.induct)
  case (1 n)
  show ?case
  proof (cases "n < 10")
    case True
    then show ?thesis
      by (subst str_nat.simps) (simp add: digits_value_def digit_char_value)
  next
    case False
    with 1 have "digits_value (str_nat (n div 10)) = n div 10" by simp
    with False show ?thesis
      by (subst str_nat.simps) (simp add: digits_value_snoc digit_char_value)
  qed
qed

lemma hd_str_nat_zero: "hd (str_nat n) = CHR ''0'' \<longleftrightarrow> n = 0"
proof (induction n rule: str_nat.induct)
  case (1 n)
  show ?case
  proof (cases "n < 10")
    case True
    then show ?thesis
      by (subst str_nat.simps) (simp add: digit_char_zero)
  next
    case False
    then have "n div 10 \<noteq> 0" by simp
    with 1 False have "hd (str_nat (n div 10)) \<noteq> CHR ''0''" by simp
    with False show ?thesis
      by (subst str_nat.simps) (simp add: str_nat_nonempty)
  qed
qed

lemma str_nat_0: "str_nat 0 = ''0''"
  by code_simp

lemma ends_value_not_digit: "ends_value (c # cs) \<Longrightarrow> \<not> is_digit c"
  by (auto simp: ends_value_def is_digit_def)

lemma ends_value_not_float:
  "ends_value rest \<Longrightarrow> \<not> (rest \<noteq> [] \<and> hd rest \<in> {CHR ''.'', CHR ''e'', CHR ''E''})"
  by (cases rest) (auto simp: ends_value_def)

lemma takeWhile_digits:
  assumes "\<forall>c \<in> set ds. is_digit c" "ends_value rest"
  shows "takeWhile is_digit (ds @ rest) = ds" "dropWhile is_digit (ds @ rest) = rest"
proof -
  have r: "takeWhile is_digit rest = []" "dropWhile is_digit rest = rest"
    using assms(2) by (cases rest; simp add: ends_value_not_digit)+
  show "takeWhile is_digit (ds @ rest) = ds"
    using assms(1) r by (simp add: takeWhile_append2)
  show "dropWhile is_digit (ds @ rest) = rest"
    using assms(1) r by (simp add: dropWhile_append2)
qed

lemma scan_number_digits:
  assumes "is_digit d" "d \<noteq> CHR ''0''" "\<forall>c \<in> set t. is_digit c" "ends_value rest"
  shows "scan_number (d # t @ rest) = Some (PInt (int (digits_value (d # t))), rest)"
    and "scan_number (CHR ''-'' # d # t @ rest) = Some (PInt (- int (digits_value (d # t))), rest)"
proof -
  have notminus: "d \<noteq> CHR ''-''"
    using assms(1) by (auto simp: is_digit_def)
  have nf: "\<not> (rest \<noteq> [] \<and> hd rest \<in> {CHR ''.'', CHR ''e'', CHR ''E''})"
    using assms(4) by (rule ends_value_not_float)
  note tw = takeWhile_digits [OF assms(3) assms(4)]
  have body: "(let ds = (if d = CHR ''0'' then [d] else d # takeWhile is_digit (t @ rest));
                   r = (if d = CHR ''0'' then t @ rest else dropWhile is_digit (t @ rest))
               in if r \<noteq> [] \<and> hd r \<in> {CHR ''.'', CHR ''e'', CHR ''E''} then None
                  else Some (PInt (if neg then - int (digits_value ds) else int (digits_value ds)), r))
              = Some (PInt (if neg then - int (digits_value (d # t)) else int (digits_value (d # t))), rest)"
    for neg
    unfolding tw Let_def using assms(2) nf by simp
  show "scan_number (d # t @ rest) = Some (PInt (int (digits_value (d # t))), rest)"
    unfolding scan_number_def using notminus assms(1) body [of False] by simp
  show "scan_number (CHR ''-'' # d # t @ rest) = Some (PInt (- int (digits_value (d # t))), rest)"
    unfolding scan_number_def using assms(1) body [of True] by simp
qed

lemma scan_number_zero:
  assumes "ends_value rest"
  shows "scan_number (''0'' @ rest) = Some (PInt 0, rest)"
proof -
  have nf: "\<not> (rest \<noteq> [] \<and> hd rest \<in> {CHR ''.'', CHR ''e'', CHR ''E''})"
    using assms by (rule ends_value_not_float)
  have z: "digits_value ''0'' = 0"
    by (simp add: digits_value_def)
  show ?thesis
    unfolding scan_number_def using nf by (auto simp: is_digit_def z Let_def)
qed

lemma scan_number_str_int:
  assumes "ends_value rest"
  shows "scan_number (str_int i @ rest) = Some (PInt i, rest)"
proof (cases "i = 0")
  case True
  then show ?thesis
    using scan_number_zero [OF assms] by (simp add: str_int_def str_nat_0)
next
  case False
  let ?n = "nat \<bar>i\<bar>"
  obtain d t where dt: "str_nat ?n = d # t"
    using str_nat_nonempty [of ?n] by (cases "str_nat ?n") auto
  have dig: "is_digit d" "\<forall>c \<in> set t. is_digit c"
    using str_nat_digits [of ?n] dt by simp_all
  have d0: "d \<noteq> CHR ''0''"
    using hd_str_nat_zero [of ?n] dt False by simp
  have v: "digits_value (d # t) = ?n"
    using digits_value_str_nat [of ?n] dt by simp
  note sn = scan_number_digits [OF dig(1) d0 dig(2) assms]
  show ?thesis
  proof (cases "i < 0")
    case True
    then have "str_int i = CHR ''-'' # d # t"
      using dt by (simp add: str_int_def abs_if)
    with sn(2) v True show ?thesis by simp
  next
    case False
    then have "str_int i = d # t"
      using dt by (simp add: str_int_def abs_if)
    with sn(1) v False show ?thesis by simp
  qed
qed

subsection \<open>Values\<close>

lemma skip_ws_newline_indent: "skip_ws (newline_indent ind lvl @ t) = skip_ws t"
proof -
  have "dropWhile is_ws (replicate k (CHR '' '') @ t) = dropWhile is_ws t" for k
    by (induction k) (simp_all add: is_ws_def)
  then show ?thesis
    by (simp add: skip_ws_def newline_indent_def is_ws_def)
qed

lemma skip_ws_starts: "starts_value s \<Longrightarrow> skip_ws s = s"
  by (cases s) (simp_all add: starts_value_def skip_ws_def)

lemma skip_ws_Cons: "\<not> is_ws c \<Longrightarrow> skip_ws (c # t) = c # t"
  by (simp add: skip_ws_def)

lemma length_newline_indent: "0 < length (newline_indent ind lvl)"
  by (simp add: newline_indent_def)

lemma ends_value_newline_indent: "ends_value (newline_indent ind lvl @ t)"
  by (simp add: ends_value_def newline_indent_def)

lemma ends_value_comma: "ends_value (CHR '','' # t)"
  by (simp add: ends_value_def)

lemma number_start_facts:
  assumes "c = CHR ''-'' \<or> is_digit c"
  shows "c \<noteq> CHR 0x22" "c \<noteq> CHR ''{''" "c \<noteq> CHR ''[''" "c \<noteq> CHR ''n''" "c \<noteq> CHR ''t''"
        "c \<noteq> CHR ''f''" "\<not> is_ws c" "c \<noteq> CHR '']''" "c \<noteq> CHR ''}''"
  using assms by (auto simp: is_digit_def is_ws_def)

lemma scan_once_int:
  assumes "ends_value rest"
  shows "scan_once (Suc n) (str_int i @ rest) = Some (PInt i, rest)"
proof -
  obtain c t where ct: "str_int i = c # t" "c = CHR ''-'' \<or> is_digit c"
    using str_int_start by blast
  note f = number_start_facts [OF ct(2)]
  have "scan_once (Suc n) (c # t @ rest) = scan_number (c # t @ rest)"
    using f by simp
  then show ?thesis
    using scan_number_str_int [OF assms, of i] by (simp add: ct(1))
qed

lemma scan_once_str:
  "scan_once (Suc n) (encode_basestring s @ rest) = Some (PStr s, rest)"
  by (simp add: encode_basestring_def scanstring_escaped)

lemma scan_once_consts:
  "scan_once (Suc n) (''null'' @ rest) = Some (PNone, rest)"
  "scan_once (Suc n) (''true'' @ rest) = Some (PBool True, rest)"
  "scan_once (Suc n) (''false'' @ rest) = Some (PBool False, rest)"
  by simp_all

lemma starts_value_iterencode: "starts_value (iterencode ind lvl v @ t)"
proof (cases v)
  case (PInt i)
  obtain c u where cu: "str_int i = c # u" "c = CHR ''-'' \<or> is_digit c"
    using str_int_start by blast
  note f = number_start_facts [OF cu(2)]
  show ?thesis using PInt cu(1) f by (simp add: starts_value_def)
qed (simp_all add: starts_value_def is_ws_def encode_basestring_def)

lemma iterencode_list_Cons:
  "xs \<noteq> [] \<Longrightarrow> iterencode_list ind lvl (x # xs)
     = iterencode ind lvl x @ '','' @ newline_indent ind lvl @ iterencode_list ind lvl xs"
  by (cases xs) simp_all

lemma iterencode_dict_Cons:
  "d \<noteq> [] \<Longrightarrow> iterencode_dict ind lvl ((k, v) # d)
     = encode_basestring k @ '': '' @ iterencode ind lvl v @ '','' @ newline_indent ind lvl
       @ iterencode_dict ind lvl d"
  by (cases d) simp_all

lemma starts_value_list: "xs \<noteq> [] \<Longrightarrow> starts_value (iterencode_list ind lvl xs @ t)"
proof (cases xs)
  case (Cons x ys)
  show ?thesis
  proof (cases ys)
    case Nil
    with Cons show ?thesis by (simp add: starts_value_iterencode)
  next
    case (Cons y zs)
    with \<open>xs = x # ys\<close> show ?thesis
      using starts_value_iterencode [of ind lvl x] by simp
  qed
qed simp

lemma iterencode_dict_start:
  "d \<noteq> [] \<Longrightarrow> \<exists>u. iterencode_dict ind lvl d = CHR 0x22 # u"
proof (cases d)
  case (Cons kv ys)
  obtain k v where kv: "kv = (k, v)" by (cases kv)
  show ?thesis
    using Cons kv by (cases ys) (simp_all add: encode_basestring_def)
qed simp

lemma scan_array_items:
  assumes "xs \<noteq> []"
    and "\<And>x n lvl rest. x \<in> set xs \<Longrightarrow> length (iterencode ind lvl x) \<le> n \<Longrightarrow> ends_value rest \<Longrightarrow>
           scan_once n (iterencode ind lvl x @ rest) = Some (x, rest)"
    and "length (iterencode_list ind lvl xs) < n"
  shows "scan_array n (iterencode_list ind lvl xs @ newline_indent ind lvl' @ CHR '']'' # rest)
           = Some (xs, rest)"
  using assms
proof (induction xs arbitrary: n rule: list_nonempty_induct)
  case (single x)
  from single(2) obtain m where n: "n = Suc m" and m: "length (iterencode ind lvl x) \<le> m"
    by (cases n) simp_all
  have "scan_once m (iterencode ind lvl x @ newline_indent ind lvl' @ CHR '']'' # rest)
          = Some (x, newline_indent ind lvl' @ CHR '']'' # rest)"
    by (rule single(1)) (simp_all add: m ends_value_newline_indent)
  moreover have "skip_ws (newline_indent ind lvl' @ CHR '']'' # rest) = CHR '']'' # rest"
    by (simp add: skip_ws_newline_indent skip_ws_Cons is_ws_def)
  ultimately show ?case
    by (simp add: n)
next
  case (cons x xs)
  let ?tail = "iterencode_list ind lvl xs @ newline_indent ind lvl' @ CHR '']'' # rest"
  have enc: "iterencode_list ind lvl (x # xs)
      = iterencode ind lvl x @ '','' @ newline_indent ind lvl @ iterencode_list ind lvl xs"
    using cons(1) by (rule iterencode_list_Cons)
  from cons(4) obtain m where n: "n = Suc m"
    and mx: "length (iterencode ind lvl x) \<le> m"
    and mxs: "length (iterencode_list ind lvl xs) < m"
    using length_newline_indent [of ind lvl] by (cases n) (simp_all add: enc)
  have "scan_once m (iterencode ind lvl x @ CHR '','' # newline_indent ind lvl @ ?tail)
          = Some (x, CHR '','' # newline_indent ind lvl @ ?tail)"
    by (rule cons(3)) (simp_all add: mx ends_value_comma)
  moreover have "skip_ws (CHR '','' # newline_indent ind lvl @ ?tail)
      = CHR '','' # newline_indent ind lvl @ ?tail"
    by (simp add: skip_ws_Cons is_ws_def)
  moreover have "skip_ws (newline_indent ind lvl @ ?tail) = ?tail"
    using starts_value_list [OF cons(1)] by (simp add: skip_ws_newline_indent skip_ws_starts)
  moreover have "scan_array m ?tail = Some (xs, rest)"
    by (rule cons(2)) (simp_all add: cons(3) mxs)
  ultimately show ?case
    by (simp add: n enc)
qed

lemma scan_object_members:
  assumes "d \<noteq> []"
    and "\<And>k v n lvl rest. (k, v) \<in> set d \<Longrightarrow> length (iterencode ind lvl v) \<le> n \<Longrightarrow> ends_value rest \<Longrightarrow>
           scan_once n (iterencode ind lvl v @ rest) = Some (v, rest)"
    and "length (iterencode_dict ind lvl d) < n"
  shows "scan_object n (iterencode_dict ind lvl d @ newline_indent ind lvl' @ CHR ''}'' # rest)
           = Some (d, rest)"
  using assms
proof (induction d arbitrary: n rule: list_nonempty_induct)
  case (single kv)
  obtain k v where kv: "kv = (k, v)" by (cases kv)
  let ?after = "newline_indent ind lvl' @ CHR ''}'' # rest"
  from single(2) obtain m where n: "n = Suc m" and m: "length (iterencode ind lvl v) \<le> m"
    by (cases n) (simp_all add: kv)
  have key: "scanstring (concat (map escape_char k) @ CHR 0x22 # '': '' @ iterencode ind lvl v @ ?after)
      = Some (k, '': '' @ iterencode ind lvl v @ ?after)"
    by (rule scanstring_escaped)
  have colon: "skip_ws ('': '' @ iterencode ind lvl v @ ?after) = '': '' @ iterencode ind lvl v @ ?after"
    by (simp add: skip_ws_Cons is_ws_def)
  have sp: "skip_ws ('' '' @ iterencode ind lvl v @ ?after) = iterencode ind lvl v @ ?after"
    using skip_ws_starts [OF starts_value_iterencode [of ind lvl v ?after]]
    by (simp add: skip_ws_def is_ws_def)
  have val: "scan_once m (iterencode ind lvl v @ ?after) = Some (v, ?after)"
    by (rule single(1) [of k]) (simp_all add: kv m ends_value_newline_indent)
  have close: "skip_ws ?after = CHR ''}'' # rest"
    by (simp add: skip_ws_newline_indent skip_ws_Cons is_ws_def)
  show ?case
    using key colon sp val close
    by (simp add: n kv encode_basestring_def)
next
  case (cons kv d)
  obtain k v where kv: "kv = (k, v)" by (cases kv)
  let ?tail = "iterencode_dict ind lvl d @ newline_indent ind lvl' @ CHR ''}'' # rest"
  let ?after = "CHR '','' # newline_indent ind lvl @ ?tail"
  have enc: "iterencode_dict ind lvl ((k, v) # d)
     = encode_basestring k @ '': '' @ iterencode ind lvl v @ '','' @ newline_indent ind lvl
       @ iterencode_dict ind lvl d"
    using cons(1) by (rule iterencode_dict_Cons)
  from cons(4) obtain m where n: "n = Suc m"
    and mv: "length (iterencode ind lvl v) \<le> m"
    and md: "length (iterencode_dict ind lvl d) < m"
    using length_newline_indent [of ind lvl] by (cases n) (simp_all add: kv enc)
  have key: "scanstring (concat (map escape_char k) @ CHR 0x22 # '': '' @ iterencode ind lvl v @ ?after)
      = Some (k, '': '' @ iterencode ind lvl v @ ?after)"
    by (rule scanstring_escaped)
  have colon: "skip_ws ('': '' @ iterencode ind lvl v @ ?after) = '': '' @ iterencode ind lvl v @ ?after"
    by (simp add: skip_ws_Cons is_ws_def)
  have sp: "skip_ws ('' '' @ iterencode ind lvl v @ ?after) = iterencode ind lvl v @ ?after"
    using skip_ws_starts [OF starts_value_iterencode [of ind lvl v ?after]]
    by (simp add: skip_ws_def is_ws_def)
  have val: "scan_once m (iterencode ind lvl v @ ?after) = Some (v, ?after)"
    by (rule cons(3) [of k]) (simp_all add: kv mv ends_value_comma)
  have comma: "skip_ws ?after = ?after"
    by (simp add: skip_ws_Cons is_ws_def)
  obtain u where u: "iterencode_dict ind lvl d = CHR 0x22 # u"
    using iterencode_dict_start [OF cons(1)] by blast
  have next_key: "skip_ws (newline_indent ind lvl @ ?tail) = ?tail"
    by (simp add: skip_ws_newline_indent u skip_ws_Cons is_ws_def)
  have sub: "scan_once n' (iterencode ind l' v' @ r') = Some (v', r')"
    if "(k', v') \<in> set d" "length (iterencode ind l' v') \<le> n'" "ends_value r'"
    for k' v' n' l' r'
    using that by (intro cons(3) [of k']) simp_all
  have rec: "scan_object m ?tail = Some (d, rest)"
    using sub md by (intro cons(2))
  show ?case
    using key colon sp val comma next_key rec
    by (simp add: n kv enc encode_basestring_def)
qed

lemma setitem_fresh: "k \<notin> set (map fst d) \<Longrightarrow> setitem d k v = d @ [(k, v)]"
  by (induction d) auto

lemma foldl_setitem_distinct:
  "distinct (map fst (d @ ps)) \<Longrightarrow> foldl (\<lambda>d (k, v). setitem d k v) d ps = d @ ps"
proof (induction ps arbitrary: d)
  case Nil
  then show ?case by simp
next
  case (Cons p ps)
  obtain k v where p: "p = (k, v)" by (cases p)
  from Cons.prems have fresh: "k \<notin> set (map fst d)" and dist: "distinct (map fst ((d @ [(k, v)]) @ ps))"
    by (auto simp: p)
  show ?case
    using Cons.IH [OF dist] by (simp add: p setitem_fresh [OF fresh])
qed

lemma dict_of_pairs_distinct: "distinct (map fst ps) \<Longrightarrow> dict_of_pairs ps = ps"
  using foldl_setitem_distinct [of "[]" ps] by (simp add: dict_of_pairs_def)

lemma scan_once_bracket:
  assumes "skip_ws cs = c1 # cs1" "c1 \<noteq> CHR '']''" "scan_array n (c1 # cs1) = Some (vals, rest)"
  shows "scan_once (Suc n) (CHR ''['' # cs) = Some (PList vals, rest)"
  using assms by simp

lemma scan_once_brace:
  assumes "skip_ws cs = c1 # cs1" "c1 \<noteq> CHR ''}''" "scan_object n (c1 # cs1) = Some (pairs, rest)"
  shows "scan_once (Suc n) (CHR ''{'' # cs) = Some (PDict (dict_of_pairs pairs), rest)"
  using assms by simp

lemma scan_once_iterencode:
  "wf_obj v \<Longrightarrow> length (iterencode ind lvl v) \<le> n \<Longrightarrow> ends_value rest \<Longrightarrow>
   scan_once n (iterencode ind lvl v @ rest) = Some (v, rest)"
proof (induction v arbitrary: n lvl rest)
  case PNone
  then obtain m where "n = Suc m" by (cases n) simp_all
  then show ?case using scan_once_consts(1) by simp
next
  case (PBool b)
  then obtain m where "n = Suc m" by (cases n) (simp_all split: if_splits)
  then show ?case using scan_once_consts(2,3) by simp
next
  case (PInt i)
  have "str_int i \<noteq> []" using str_int_start [of i] by auto
  with PInt obtain m where "n = Suc m" by (cases n) simp_all
  then show ?case using scan_once_int [OF PInt(3)] by simp
next
  case (PStr s)
  then obtain m where "n = Suc m" by (cases n) (simp_all add: encode_basestring_def)
  then show ?case using scan_once_str by simp
next
  case (PList xs)
  show ?case
  proof (cases "xs = []")
    case True
    with PList obtain m where "n = Suc m" by (cases n) simp_all
    with True show ?thesis by (simp add: skip_ws_def is_ws_def)
  next
    case False
    let ?items = "iterencode_list ind (Suc lvl) xs"
    let ?tail = "?items @ newline_indent ind lvl @ CHR '']'' # rest"
    from PList(3) False obtain m where n: "n = Suc m" and m: "length ?items < m"
      using length_newline_indent [of ind lvl] length_newline_indent [of ind "Suc lvl"]
      by (cases n) simp_all
    have sub: "scan_once n' (iterencode ind l' x @ r') = Some (x, r')"
      if "x \<in> set xs" "length (iterencode ind l' x) \<le> n'" "ends_value r'" for x n' l' r'
      using that PList(2) by (intro PList(1)) simp_all
    have items: "scan_array m ?tail = Some (xs, rest)"
      using False sub m by (rule scan_array_items)
    have st: "starts_value ?tail"
      using False by (rule starts_value_list)
    then obtain c1 cs1 where c1: "?tail = c1 # cs1" "c1 \<noteq> CHR '']''"
      by (cases ?tail) (simp_all add: starts_value_def)
    have "skip_ws (newline_indent ind (Suc lvl) @ ?tail) = ?tail"
      using st by (simp add: skip_ws_newline_indent skip_ws_starts)
    then have sk: "skip_ws (newline_indent ind (Suc lvl) @ ?tail) = c1 # cs1"
      by (simp only: c1(1))
    have items': "scan_array m (c1 # cs1) = Some (xs, rest)"
      using items by (simp only: c1(1))
    have "scan_once (Suc m) (CHR ''['' # newline_indent ind (Suc lvl) @ ?tail) = Some (PList xs, rest)"
      using sk c1(2) items' by (rule scan_once_bracket)
    then show ?thesis
      using False by (simp add: n del: scan_once.simps)
  qed
next
  case (PDict d)
  show ?case
  proof (cases "d = []")
    case True
    with PDict obtain m where "n = Suc m" by (cases n) simp_all
    with True show ?thesis by (simp add: skip_ws_def is_ws_def dict_of_pairs_def)
  next
    case False
    let ?items = "iterencode_dict ind (Suc lvl) d"
    let ?tail = "?items @ newline_indent ind lvl @ CHR ''}'' # rest"
    from PDict(3) False obtain m where n: "n = Suc m" and m: "length ?items < m"
      using length_newline_indent [of ind lvl] length_newline_indent [of ind "Suc lvl"]
      by (cases n) simp_all
    have sub: "scan_once n' (iterencode ind l' v @ r') = Some (v, r')"
      if "(k, v) \<in> set d" "length (iterencode ind l' v) \<le> n'" "ends_value r'" for k v n' l' r'
    proof (rule PDict(1) [of "(k, v)" v])
      show "(k, v) \<in> set d" by (rule that(1))
      show "v \<in> Basic_BNFs.snds (k, v)" by simp
      show "wf_obj v" using PDict(2) that(1) by force
    qed (rule that)+
    have items: "scan_object m ?tail = Some (d, rest)"
      using False sub m by (rule scan_object_members)
    obtain u where u: "?items = CHR 0x22 # u"
      using iterencode_dict_start [OF False] by blast
    let ?cs1 = "u @ newline_indent ind lvl @ CHR ''}'' # rest"
    have t: "?tail = CHR 0x22 # ?cs1"
      by (simp add: u)
    have "skip_ws (newline_indent ind (Suc lvl) @ ?tail) = skip_ws (CHR 0x22 # ?cs1)"
      by (simp only: skip_ws_newline_indent t)
    then have sk: "skip_ws (newline_indent ind (Suc lvl) @ ?tail) = CHR 0x22 # ?cs1"
      by (simp add: skip_ws_Cons is_ws_def)
    have items': "scan_object m (CHR 0x22 # ?cs1) = Some (d, rest)"
      using items by (simp only: t)
    have dd: "dict_of_pairs d = d"
      using PDict(2) by (simp add: dict_of_pairs_distinct)
    have "scan_once (Suc m) (CHR ''{'' # newline_indent ind (Suc lvl) @ ?tail)
            = Some (PDict (dict_of_pairs d), rest)"
      using sk _ items' by (rule scan_once_brace) simp
    then show ?thesis
      using False by (simp add: n dd del: scan_once.simps)
  qed
qed

lemma json_loads_dumps: "wf_obj v \<Longrightarrow> json_loads (json_dumps ind v) = Some v"
proof -
  assume wf: "wf_obj v"
  let ?s = "iterencode ind 0 v"
  have "starts_value ?s"
    using starts_value_iterencode [of ind 0 v "[]"] by simp
  then have sk: "skip_ws ?s = ?s"
    by (rule skip_ws_starts)
  have "scan_once (Suc (length ?s)) (?s @ []) = Some (v, [])"
    using wf by (rule scan_once_iterencode) (simp_all add: ends_value_def)
  then have "scan_once (Suc (length ?s)) (skip_ws ?s) = Some (v, [])"
    by (simp only: sk append_Nil2)
  then show ?thesis
    unfolding json_loads_def json_dumps_def by (simp add: skip_ws_def del: scan_once.simps)
qed

subsection \<open>Texts that can be encoded\<close>

lemma has_surrogate_Cons_other: "a \<noteq> CHR 0xED \<Longrightarrow> has_surrogate (a # cs) = has_surrogate cs"
  by (cases cs) simp_all

lemma has_surrogate_Cons_low:
  "cs = [] \<or> (of_char (hd cs) :: nat) < 0xA0 \<Longrightarrow> has_surrogate (a # cs) = has_surrogate cs"
  by (cases cs) auto

lemma has_surrogate_append:
  "has_surrogate (xs @ ys) \<Longrightarrow>
   has_surrogate xs \<or> has_surrogate ys
   \<or> (xs \<noteq> [] \<and> ys \<noteq> [] \<and> last xs = CHR 0xED \<and> 0xA0 \<le> (of_char (hd ys) :: nat))"
proof (induction xs rule: induct_list012)
  case 1
  then show ?case by simp
next
  case (2 x)
  then show ?case by (cases ys) auto
next
  case (3 a b cs)
  then show ?case by auto
qed

lemma ascii_not_lead: "(of_char c :: nat) < 128 \<Longrightarrow> c \<noteq> CHR 0xED"
  by auto

lemma ascii_framed_append: "ascii_framed a \<Longrightarrow> ascii_framed b \<Longrightarrow> ascii_framed (a @ b)"
proof -
  assume a: "ascii_framed a" and b: "ascii_framed b"
  have "\<not> has_surrogate (a @ b)"
  proof
    assume "has_surrogate (a @ b)"
    from has_surrogate_append [OF this] a b show False
      by (auto simp: ascii_framed_def)
  qed
  with a b show ?thesis
    by (simp add: ascii_framed_def)
qed

lemma ascii_text_framed:
  assumes "s \<noteq> []" "\<forall>c \<in> set s. (of_char c :: nat) < 128"
  shows "ascii_framed s"
proof -
  have "\<not> has_surrogate t" if "\<forall>c \<in> set t. (of_char c :: nat) < 128" for t
    using that
  proof (induction t)
    case Nil
    show ?case by simp
  next
    case (Cons c t)
    then have "c \<noteq> CHR 0xED" by auto
    with Cons show ?case by (simp add: has_surrogate_Cons_other)
  qed
  with assms show ?thesis
    by (simp add: ascii_framed_def)
qed

lemma has_surrogate_ascii_prefix:
  "\<forall>c \<in> set xs. (of_char c :: nat) < 128 \<Longrightarrow> has_surrogate (xs @ ys) = has_surrogate ys"
proof (induction xs)
  case Nil
  show ?case by simp
next
  case (Cons c xs)
  then have "c \<noteq> CHR 0xED" by auto
  with Cons show ?case by (simp add: has_surrogate_Cons_other)
qed

lemma hex_digit_ascii: "d < 16 \<Longrightarrow> (of_char (hex_digit d) :: nat) < 128"
  by (simp add: hex_digit_def)

lemma escape_char_cases:
  obtains (plain) "escape_char c = [c]"
  | (escaped) t where "escape_char c = CHR 0x5C # t" "\<forall>x \<in> set t. (of_char x :: nat) < 128"
      "(of_char c :: nat) < 128"
proof (cases "c = CHR 0x5C \<or> c = CHR 0x22 \<or> c = CHR 0x08 \<or> c = CHR 0x0C
                    \<or> c = CHR 0x0A \<or> c = CHR 0x0D \<or> c = CHR 0x09")
  case True
  then have "\<exists>t. escape_char c = CHR 0x5C # t \<and> (\<forall>x \<in> set t. (of_char x :: nat) < 128)"
    by (elim disjE) (simp_all add: escape_char_def)
  moreover from True have "(of_char c :: nat) < 128"
    by (elim disjE) simp_all
  ultimately show ?thesis using escaped by blast
next
  case False
  show ?thesis
  proof (cases "(of_char c :: nat) < 32")
    case True
    with False have "escape_char c = [CHR 0x5C, CHR ''u'', CHR ''0'', CHR ''0'',
         hex_digit ((of_char c :: nat) div 16), hex_digit ((of_char c :: nat) mod 16)]"
      by (intro escape_char_control) simp_all
    moreover have "(of_char (hex_digit ((of_char c :: nat) div 16)) :: nat) < 128"
      using True by (intro hex_digit_ascii) simp
    moreover have "(of_char (hex_digit ((of_char c :: nat) mod 16)) :: nat) < 128"
      by (intro hex_digit_ascii) simp
    ultimately show ?thesis
      using True by (intro escaped [of "[CHR ''u'', CHR ''0'', CHR ''0'',
         hex_digit ((of_char c :: nat) div 16), hex_digit ((of_char c :: nat) mod 16)]"]) simp_all
  next
    case nc: False
    with False have "escape_char c = [c]"
      by (intro escape_char_plain) simp_all
    then show ?thesis by (rule plain)
  qed
qed

lemma escaped_nonempty: "concat (map escape_char (b # cs)) \<noteq> []"
  by (cases b rule: escape_char_cases) simp_all

lemma escaped_hd:
  assumes "concat (map escape_char (b # cs)) = x # t" "0xA0 \<le> (of_char x :: nat)"
  shows "x = b"
  using assms by (cases b rule: escape_char_cases) auto

lemma has_surrogate_escaped:
  "has_surrogate (concat (map escape_char s)) \<Longrightarrow> has_surrogate s"
proof (induction s rule: induct_list012)
  case 1
  then show ?case by simp
next
  case (2 v)
  show ?case
  proof (cases v rule: escape_char_cases)
    case plain
    with 2 show ?thesis by simp
  next
    case (escaped u)
    then have "\<forall>c \<in> set (escape_char v). (of_char c :: nat) < 128"
      by simp
    from has_surrogate_ascii_prefix [OF this, of "[]"] 2 show ?thesis
      by simp
  qed
next
  case (3 a b cs)
  note ih = "3.IH"(2)
  note prem = "3.prems"
  obtain x t where xt: "concat (map escape_char (b # cs)) = x # t"
    using escaped_nonempty [of b cs] by (cases "concat (map escape_char (b # cs))") auto
  show ?case
  proof (cases a rule: escape_char_cases)
    case plain
    with prem xt have "has_surrogate (a # x # t)"
      by simp
    then consider (pair) "a = CHR 0xED" "0xA0 \<le> (of_char x :: nat)" "(of_char x :: nat) \<le> 0xBF"
      | (later) "has_surrogate (x # t)"
      by auto
    then show ?thesis
    proof cases
      case pair
      with escaped_hd [OF xt] show ?thesis by simp
    next
      case later
      with ih xt have "has_surrogate (b # cs)" by simp
      then show ?thesis by simp
    qed
  next
    case (escaped u)
    then have "\<forall>c \<in> set (escape_char a). (of_char c :: nat) < 128"
      by simp
    from has_surrogate_ascii_prefix [OF this, of "concat (map escape_char (b # cs))"] prem
    have "has_surrogate (concat (map escape_char (b # cs)))"
      by simp
    with ih have "has_surrogate (b # cs)" by simp
    then show ?thesis by simp
  qed
qed

lemma encode_basestring_framed:
  assumes "\<not> has_surrogate s"
  shows "ascii_framed (encode_basestring s)"
proof -
  let ?body = "concat (map escape_char s)"
  have b: "\<not> has_surrogate ?body"
    using assms has_surrogate_escaped by blast
  have "\<not> has_surrogate (?body @ [CHR 0x22])"
  proof
    assume "has_surrogate (?body @ [CHR 0x22])"
    from has_surrogate_append [OF this] b show False by simp
  qed
  then have "\<not> has_surrogate (CHR 0x22 # ?body @ [CHR 0x22])"
    by (simp add: has_surrogate_Cons_other)
  then show ?thesis
    by (simp add: ascii_framed_def encode_basestring_def)
qed

lemma str_int_ascii: "\<forall>c \<in> set (str_int i). (of_char c :: nat) < 128"
proof -
  have "\<forall>c \<in> set (str_nat n). (of_char c :: nat) < 128" for n
    using str_nat_digits [of n] by (auto simp: is_digit_def)
  then show ?thesis
    by (simp add: str_int_def)
qed

lemma str_int_framed: "ascii_framed (str_int i)"
proof (rule ascii_text_framed)
  show "str_int i \<noteq> []"
    using str_int_start [of i] by auto
  show "\<forall>c \<in> set (str_int i). (of_char c :: nat) < 128"
    by (rule str_int_ascii)
qed

lemma newline_indent_framed: "ascii_framed (newline_indent ind lvl)"
  by (rule ascii_text_framed) (simp_all add: newline_indent_def)

lemma literal_framed:
  "ascii_framed ''null''" "ascii_framed ''true''" "ascii_framed ''false''"
  "ascii_framed ''[]''" "ascii_framed ''{}''" "ascii_framed ''[''" "ascii_framed '']''"
  "ascii_framed ''{''" "ascii_framed ''}''" "ascii_framed '',''" "ascii_framed '': ''"
  by (simp_all add: ascii_framed_def)

lemma iterencode_list_framed:
  assumes "xs \<noteq> []"
    and "\<And>x lvl. x \<in> set xs \<Longrightarrow> ascii_framed (iterencode ind lvl x)"
  shows "ascii_framed (iterencode_list ind lvl xs)"
  using assms
proof (induction xs rule: list_nonempty_induct)
  case (single x)
  then show ?case by simp
next
  case (cons x xs)
  have "ascii_framed (iterencode ind lvl x @ '','' @ newline_indent ind lvl
                      @ iterencode_list ind lvl xs)"
    by (intro ascii_framed_append literal_framed newline_indent_framed cons) simp_all
  then show ?case
    by (simp only: iterencode_list_Cons [OF cons(1)])
qed

lemma iterencode_dict_framed:
  assumes "d \<noteq> []"
    and "\<And>k v lvl. (k, v) \<in> set d \<Longrightarrow> \<not> has_surrogate k \<and> ascii_framed (iterencode ind lvl v)"
  shows "ascii_framed (iterencode_dict ind lvl d)"
  using assms
proof (induction d rule: list_nonempty_induct)
  case (single kv)
  obtain k v where kv: "kv = (k, v)" by (cases kv)
  have "ascii_framed (encode_basestring k @ '': '' @ iterencode ind lvl v)"
    using single [of k v] by (intro ascii_framed_append literal_framed encode_basestring_framed)
      (simp_all add: kv)
  then show ?case by (simp add: kv)
next
  case (cons kv d)
  obtain k v where kv: "kv = (k, v)" by (cases kv)
  have sub: "\<not> has_surrogate k' \<and> ascii_framed (iterencode ind l v')"
    if "(k', v') \<in> set d" for k' v' l
    using that by (intro cons(3)) simp
  have rest: "ascii_framed (iterencode_dict ind lvl d)"
    using sub by (rule cons(2))
  have "ascii_framed (encode_basestring k @ '': '' @ iterencode ind lvl v @ '','' @ newline_indent ind lvl
       @ iterencode_dict ind lvl d)"
    using cons(3) [of k v] rest
    by (intro ascii_framed_append literal_framed encode_basestring_framed newline_indent_framed)
      (simp_all add: kv)
  then show ?case
    by (simp only: kv iterencode_dict_Cons [OF cons(1)])
qed

lemma iterencode_framed:
  "strings_encodable v \<Longrightarrow> ascii_framed (iterencode ind lvl v)"
proof (induction v arbitrary: lvl)
  case PNone
  show ?case by (simp add: literal_framed)
next
  case (PBool b)
  show ?case by (simp add: literal_framed)
next
  case (PInt i)
  show ?case by (simp add: str_int_framed)
next
  case (PStr s)
  then show ?case by (simp add: encode_basestring_framed)
next
  case (PList xs)
  show ?case
  proof (cases "xs = []")
    case True
    then show ?thesis by (simp add: literal_framed)
  next
    case False
    have items: "ascii_framed (iterencode_list ind (Suc lvl) xs)"
      using False PList by (intro iterencode_list_framed) simp_all
    have "ascii_framed (''['' @ newline_indent ind (Suc lvl) @ iterencode_list ind (Suc lvl) xs
           @ newline_indent ind lvl @ '']'')"
      by (intro ascii_framed_append literal_framed newline_indent_framed items)
    with False show ?thesis by simp
  qed
next
  case (PDict d)
  show ?case
  proof (cases "d = []")
    case True
    then show ?thesis by (simp add: literal_framed)
  next
    case False
    have sub: "\<not> has_surrogate k \<and> ascii_framed (iterencode ind l v)"
      if "(k, v) \<in> set d" for k v l
    proof
      show "\<not> has_surrogate k"
        using PDict(2) that by force
      show "ascii_framed (iterencode ind l v)"
      proof (rule PDict(1) [of "(k, v)" v])
        show "(k, v) \<in> set d" by (rule that)
        show "v \<in> Basic_BNFs.snds (k, v)" by simp
        show "strings_encodable v" using PDict(2) that by force
      qed
    qed
    have items: "ascii_framed (iterencode_dict ind (Suc lvl) d)"
      using False sub by (rule iterencode_dict_framed)
    have "ascii_framed (''{'' @ newline_indent ind (Suc lvl) @ iterencode_dict ind (Suc lvl) d
           @ newline_indent ind lvl @ ''}'')"
      by (intro ascii_framed_append literal_framed newline_indent_framed items)
    with False show ?thesis by simp
  qed
qed

lemma json_dumps_encodable:
  "strings_encodable v \<Longrightarrow> encode_utf8 (json_dumps ind v) = Inr (json_dumps ind v)"
  using iterencode_framed [of v ind 0]
  by (simp add: encode_utf8_def json_dumps_def ascii_framed_def)

subsection \<open>The file written\<close>

lemma join_Cons: "xs \<noteq> [] \<Longrightarrow> join sep (x # xs) = x @ sep @ join sep xs"
  by (cases xs) simp_all

lemma iterencode_list_join:
  "iterencode_list ind lvl xs = join ('','' @ newline_indent ind lvl) (map (iterencode ind lvl) xs)"
proof (induction xs)
  case Nil
  show ?case by simp
next
  case (Cons x xs)
  then show ?case
    by (cases "xs = []") (simp_all add: iterencode_list_Cons join_Cons)
qed

lemma iterencode_dict_join:
  "iterencode_dict ind lvl d
     = join ('','' @ newline_indent ind lvl)
         (map (\<lambda>(k, v). encode_basestring k @ '': '' @ iterencode ind lvl v) d)"
proof (induction d)
  case Nil
  show ?case by simp
next
  case (Cons kv d)
  obtain k v where kv: "kv = (k, v)" by (cases kv)
  from Cons show ?case
    by (cases "d = []") (simp_all add: kv iterencode_dict_Cons join_Cons)
qed

lemma escape_char_non_ascii: "128 \<le> (of_char c :: nat) \<Longrightarrow> escape_char c = [c]"
  by (rule escape_char_plain) auto

lemma encode_basestring_non_ascii:
  "\<forall>c \<in> set s. 128 \<le> (of_char c :: nat) \<Longrightarrow> encode_basestring s = CHR 0x22 # s @ [CHR 0x22]"
proof -
  assume a: "\<forall>c \<in> set s. 128 \<le> (of_char c :: nat)"
  then have "concat (map escape_char s) = s"
    by (induction s) (simp_all add: escape_char_non_ascii)
  then show ?thesis by (simp add: encode_basestring_def)
qed

lemma wf_basic_lookup: "wf_obj (PDict (basic_lookup lib raw))"
  by (cases "parse lib raw") (simp_all add: basic_lookup_def Let_def)

lemma wf_lookup_all: "\<forall>r \<in> set (lookup_all lib nums). wf_obj (PDict r)"
  by (induction nums) (simp_all add: wf_basic_lookup del: wf_obj.simps)

lemma write_json_unencodable:
  "has_surrogate (json_dumps 2 (PList (map PDict rows))) \<Longrightarrow>
   write_json path rows fs = (fs(path \<mapsto> TextFile []), Some UnicodeEncodeError)"
  by (simp add: write_json_def encode_utf8_def)

lemma surrogate_record:
  "basic_lookup demo_lib [CHR 0xED, CHR 0xB3, CHR 0xBF]
     = [(''input'', PStr [CHR 0xED, CHR 0xB3, CHR 0xBF]), (''valid'', PBool False),
        (''error'', PStr parse_error_message)]"
  by (simp add: basic_lookup_def demo_lib_def)

lemma surrogate_text:
  "has_surrogate (json_dumps 2 (PList (map PDict (lookup_all demo_lib [[CHR 0xED, CHR 0xB3, CHR 0xBF]]))))"
  by code_simp

text \<open>
  A rejected input that holds a byte which is not UTF-8, so a lone surrogate in the
  string: the text of its record cannot be encoded, \<^verbatim>\<open>write_text\<close> raises
  \<^verbatim>\<open>UnicodeEncodeError\<close> and leaves the file empty.
\<close>

theorem write_json_surrogate:
  "fst (write_json ''out.json'' (lookup_all demo_lib [[CHR 0xED, CHR 0xB3, CHR 0xBF]]) Map.empty)
       ''out.json'' = Some (TextFile [])
   \<and> snd (write_json ''out.json'' (lookup_all demo_lib [[CHR 0xED, CHR 0xB3, CHR 0xBF]]) Map.empty)
       = Some UnicodeEncodeError"
  by (simp only: write_json_unencodable [OF surrogate_text]) simp

lemma strings_encodable_demo:
  "\<forall>r \<in> set (lookup_all demo_lib [''+12025550123'', ''not-a-number'']). strings_encodable (PDict r)"
  by code_simp

text \<open>
  C7, as amended. For records none of whose strings holds a surrogate, \<^verbatim>\<open>write_json\<close>
  raises nothing and stores under the path one text, the JSON array of all records in
  order: an opening bracket, the records each on a new line indented by two spaces and
  separated by commas, a closing bracket on its own line (and \<^verbatim>\<open>[]\<close> for no records);
  inside a record the members are indented by four spaces. A string of non-ASCII bytes
  is written as it is between the quotes. Reading the text back gives the list of the
  records, with every key and value as it was. (\<open>wf_obj\<close> says of the association
  lists what every dictionary has: each key once.)
\<close>

theorem write_json_roundtrip:
  assumes "\<forall>r \<in> set rows. wf_obj (PDict r)"
    and "\<forall>r \<in> set rows. strings_encodable (PDict r)"
  shows "\<exists>written. write_json path rows fs = (fs(path \<mapsto> TextFile written), None)
     \<and> json_loads written = Some (PList (map PDict rows))
     \<and> written = (if rows = [] then ''[]''
                else ''['' @ CHR 0x0A # ''  ''
                     @ join ('','' @ CHR 0x0A # ''  '') (map (\<lambda>r. iterencode 2 1 (PDict r)) rows)
                     @ CHR 0x0A # '']'')
     \<and> (\<forall>r \<in> set rows. r \<noteq> [] \<longrightarrow>
           iterencode 2 1 (PDict r)
             = ''{'' @ CHR 0x0A # ''    ''
               @ join ('','' @ CHR 0x0A # ''    '')
                   (map (\<lambda>(k, v). encode_basestring k @ '': '' @ iterencode 2 2 v) r)
               @ CHR 0x0A # ''  }'')
     \<and> (\<forall>s. (\<forall>c \<in> set s. 128 \<le> (of_char c :: nat)) \<longrightarrow>
           encode_basestring s = CHR 0x22 # s @ [CHR 0x22])"
proof -
  let ?obj = "PList (map PDict rows)"
  have wf: "wf_obj ?obj"
    using assms(1) by (simp del: wf_obj.simps(2))
  have "strings_encodable ?obj"
    using assms(2) by (simp del: strings_encodable.simps(3))
  then have enc: "encode_utf8 (json_dumps 2 ?obj) = Inr (json_dumps 2 ?obj)"
    by (rule json_dumps_encodable)
  have wr: "write_json path rows fs = (fs(path \<mapsto> TextFile (json_dumps 2 ?obj)), None)"
    by (simp add: write_json_def enc)
  have rt: "json_loads (json_dumps 2 ?obj) = Some ?obj"
    using wf by (rule json_loads_dumps)
  have ni: "newline_indent 2 0 = [CHR 0x0A]" "newline_indent 2 1 = CHR 0x0A # ''  ''"
    "newline_indent 2 2 = CHR 0x0A # ''    ''"
    by code_simp+
  have s: "Suc 0 = 1" "Suc 1 = 2"
    by simp_all
  have "json_dumps 2 ?obj = (if rows = [] then ''[]''
          else ''['' @ newline_indent 2 (Suc 0)
               @ join ('','' @ newline_indent 2 (Suc 0)) (map (\<lambda>r. iterencode 2 (Suc 0) (PDict r)) rows)
               @ newline_indent 2 0 @ '']'')"
    by (simp add: json_dumps_def iterencode_list_join comp_def del: iterencode.simps(6))
  then have layout: "json_dumps 2 ?obj = (if rows = [] then ''[]''
                else ''['' @ CHR 0x0A # ''  ''
                     @ join ('','' @ CHR 0x0A # ''  '') (map (\<lambda>r. iterencode 2 1 (PDict r)) rows)
                     @ CHR 0x0A # '']'')"
    unfolding s ni by simp
  have rec: "iterencode 2 1 (PDict r)
             = ''{'' @ CHR 0x0A # ''    ''
               @ join ('','' @ CHR 0x0A # ''    '')
                   (map (\<lambda>(k, v). encode_basestring k @ '': '' @ iterencode 2 2 v) r)
               @ CHR 0x0A # ''  }''" if "r \<noteq> []" for r
  proof -
    have "iterencode 2 1 (PDict r)
        = ''{'' @ newline_indent 2 (Suc 1)
          @ join ('','' @ newline_indent 2 (Suc 1))
              (map (\<lambda>(k, v). encode_basestring k @ '': '' @ iterencode 2 (Suc 1) v) r)
          @ newline_indent 2 1 @ ''}''"
      using that by (simp only: iterencode.simps iterencode_dict_join if_False)
    then show ?thesis
      unfolding s ni by simp
  qed
  show ?thesis
  proof (intro exI [of _ "json_dumps 2 ?obj"] conjI)
    show "write_json path rows fs = (fs(path \<mapsto> TextFile (json_dumps 2 ?obj)), None)"
      by (rule wr)
    show "json_loads (json_dumps 2 ?obj) = Some ?obj"
      by (rule rt)
    show "json_dumps 2 ?obj = (if rows = [] then ''[]''
                else ''['' @ CHR 0x0A # ''  ''
                     @ join ('','' @ CHR 0x0A # ''  '') (map (\<lambda>r. iterencode 2 1 (PDict r)) rows)
                     @ CHR 0x0A # '']'')"
      by (rule layout)
    show "\<forall>r \<in> set rows. r \<noteq> [] \<longrightarrow>
           iterencode 2 1 (PDict r)
             = ''{'' @ CHR 0x0A # ''    ''
               @ join ('','' @ CHR 0x0A # ''    '')
                   (map (\<lambda>(k, v). encode_basestring k @ '': '' @ iterencode 2 2 v) r)
               @ CHR 0x0A # ''  }''"
      using rec by blast
    show "\<forall>s. (\<forall>c \<in> set s. 128 \<le> (of_char c :: nat)) \<longrightarrow>
           encode_basestring s = CHR 0x22 # s @ [CHR 0x22]"
      using encode_basestring_non_ascii by blast
  qed
qed

theorem write_json_roundtrip_witness:
  "\<exists>written. write_json ''out.json'' (lookup_all demo_lib [''+12025550123'', ''not-a-number'']) Map.empty
            = (Map.empty(''out.json'' \<mapsto> TextFile written), None)
     \<and> json_loads written
         = Some (PList [PDict (basic_lookup demo_lib ''+12025550123''),
                        PDict (basic_lookup demo_lib ''not-a-number'')])"
proof -
  have h: "\<forall>r \<in> set (lookup_all demo_lib [''+12025550123'', ''not-a-number'']). wf_obj (PDict r)"
    by (rule wf_lookup_all)
  note e = strings_encodable_demo
  from write_json_roundtrip [OF h e, of "''out.json''" Map.empty]
  obtain written where
    "write_json ''out.json'' (lookup_all demo_lib [''+12025550123'', ''not-a-number'']) Map.empty
       = (Map.empty(''out.json'' \<mapsto> TextFile written), None)"
    "json_loads written = Some (PList (map PDict (lookup_all demo_lib [''+12025550123'', ''not-a-number''])))"
    by blast
  then show ?thesis
    by (intro exI [of _ written]) simp
qed

end
